(* ===== verification/TOC_Prelude.thy ===== *)
theory TOC_Prelude
  imports Main
begin

text \<open>
  Shared vocabulary of the development: the two failures the modelled code can run into,
  the result type that carries them, JavaScript's truthiness on an optional boolean
  (\<open>undefined\<close>, \<open>false\<close>, \<open>true\<close>), and the combinators that render a list of
  children in order and stop at the first failure (\<open>collect\<close> for the elements they
  leave, \<open>all_ok\<close> for one result each). The lemma collections declared here are
  filled by the component theories:
  \<^item> \<open>toc_defs\<close>: the defining equations of the component functions, unfolded when a
    proof computes a rendering;
  \<^item> \<open>toc_frame\<close>: facts saying which fields an operation leaves alone.
\<close>

named_theorems toc_defs "defining equations of the component functions"
named_theorems toc_frame "fields that an operation leaves unchanged"

datatype error =
    InvalidElementType   \<comment> \<open>an element whose type is \<open>null\<close> reaches the renderer\<close>
  | NotAFunction         \<comment> \<open>a call of \<open>undefined\<close>: the callback prop was not passed\<close>

type_synonym 'a result = "error + 'a"

definition truthy :: "bool option \<Rightarrow> bool" where
  "truthy b = (b = Some True)"

fun collect :: "('e + 'a list) list \<Rightarrow> 'e + 'a list" where
  "collect [] = Inr []"
| "collect (Inl e # rs) = Inl e"
| "collect (Inr xs # rs) = (case collect rs of Inl e \<Rightarrow> Inl e | Inr ys \<Rightarrow> Inr (xs @ ys))"

fun all_ok :: "('e + 'a) list \<Rightarrow> 'e + 'a list" where
  "all_ok [] = Inr []"
| "all_ok (Inl e # rs) = Inl e"
| "all_ok (Inr x # rs) = (case all_ok rs of Inl e \<Rightarrow> Inl e | Inr xs \<Rightarrow> Inr (x # xs))"

definition wrap :: "('a list \<Rightarrow> 'a) \<Rightarrow> 'e + 'a list \<Rightarrow> 'e + 'a list" where
  "wrap f r = (case r of Inl e \<Rightarrow> Inl e | Inr xs \<Rightarrow> Inr [f xs])"

subsection \<open>Truthiness\<close>

lemma truthy_simps [simp]:
  "truthy None = False" "truthy (Some b) = b"
  by (simp_all add: truthy_def)

lemma truthy_iff: "truthy b \<longleftrightarrow> b = Some True"
  by (simp add: truthy_def)

lemma not_truthy_cases: "\<not> truthy b \<longleftrightarrow> b = None \<or> b = Some False"
  by (cases b) auto

subsection \<open>Results\<close>

lemma wrap_simps [simp]:
  "wrap f (Inl e) = Inl e" "wrap f (Inr xs) = Inr [f xs]"
  by (simp_all add: wrap_def)

lemma wrap_eq_Inr_iff: "wrap f r = Inr ys \<longleftrightarrow> (\<exists>xs. r = Inr xs \<and> ys = [f xs])"
  by (cases r) auto

lemma wrap_eq_Inl_iff [simp]: "wrap f r = Inl e \<longleftrightarrow> r = Inl e"
  by (cases r) auto

lemma collect_Cons_Inr_iff:
  "collect (r # rs) = Inr zs \<longleftrightarrow> (\<exists>xs ys. r = Inr xs \<and> collect rs = Inr ys \<and> zs = xs @ ys)"
  by (cases r) (auto split: sum.splits)

lemma collect_all_Inr: "collect (map Inr xss) = Inr (concat xss)"
  by (induction xss) simp_all

lemma collect_eq_Inr_iff: "collect rs = Inr zs \<longleftrightarrow> (\<exists>xss. rs = map Inr xss \<and> zs = concat xss)"
proof
  show "collect rs = Inr zs \<Longrightarrow> \<exists>xss. rs = map Inr xss \<and> zs = concat xss"
  proof (induction rs arbitrary: zs)
    case Nil
    then show ?case by simp
  next
    case (Cons r rs)
    from Cons.prems obtain xs ys
      where r: "r = Inr xs" and ys: "collect rs = Inr ys" and zs: "zs = xs @ ys"
      by (auto simp: collect_Cons_Inr_iff)
    from Cons.IH [OF ys] obtain xss where "rs = map Inr xss" "ys = concat xss" by blast
    with r zs have "r # rs = map Inr (xs # xss) \<and> zs = concat (xs # xss)" by simp
    then show ?case by (rule exI)
  qed
next
  show "\<exists>xss. rs = map Inr xss \<and> zs = concat xss \<Longrightarrow> collect rs = Inr zs"
    by (auto simp: collect_all_Inr)
qed

lemma collect_Inl_member: "collect rs = Inl e \<Longrightarrow> Inl e \<in> set rs"
proof (induction rs)
  case Nil
  then show ?case by simp
next
  case (Cons r rs)
  then show ?case by (cases r) (auto split: sum.splits)
qed

lemma collect_no_Inl: "(\<And>e. Inl e \<notin> set rs) \<Longrightarrow> \<exists>zs. collect rs = Inr zs"
  by (cases "collect rs") (auto dest: collect_Inl_member)

lemma collect_map_Inr:
  assumes "\<And>x. x \<in> set xs \<Longrightarrow> f x = Inr (g x)"
  shows "collect (map f xs) = Inr (concat (map g xs))"
proof -
  from assms have "map f xs = map Inr (map g xs)" by simp
  then show ?thesis by (simp only: collect_all_Inr)
qed

lemma collect_map_if:
  assumes "\<And>x. x \<in> set xs \<Longrightarrow> f x = (if P x then Inr (g x) else Inl e)"
  shows "collect (map f xs) = (if list_all P xs then Inr (concat (map g xs)) else Inl e)"
  using assms
proof (induction xs)
  case Nil
  then show ?case by simp
next
  case (Cons x xs)
  then have "collect (map f xs) = (if list_all P xs then Inr (concat (map g xs)) else Inl e)"
    by simp
  moreover from Cons.prems have "f x = (if P x then Inr (g x) else Inl e)"
    by simp
  ultimately show ?case by simp
qed

lemma collect_map_list_all:
  assumes "collect (map f xs) = Inr zs"
    and "\<And>x ys. x \<in> set xs \<Longrightarrow> f x = Inr ys \<Longrightarrow> list_all P ys"
  shows "list_all P zs"
  using assms
proof (induction xs arbitrary: zs)
  case Nil
  then show ?case by simp
next
  case (Cons x xs)
  from Cons.prems(1) obtain ys ws
    where x: "f x = Inr ys" and ws: "collect (map f xs) = Inr ws" and zs: "zs = ys @ ws"
    by (auto simp: collect_Cons_Inr_iff)
  from x have "list_all P ys" by (rule Cons.prems(2) [rotated]) simp
  moreover have "list_all P ws"
  proof (rule Cons.IH [OF ws])
    fix x' ys'
    assume "x' \<in> set xs" and "f x' = Inr ys'"
    then show "list_all P ys'" using Cons.prems(2) [of x' ys'] by simp
  qed
  ultimately show ?case by (simp add: zs)
qed

lemma collect_append:
  "collect (rs @ ss) =
    (case collect rs of Inl e \<Rightarrow> Inl e
     | Inr xs \<Rightarrow> (case collect ss of Inl e \<Rightarrow> Inl e | Inr ys \<Rightarrow> Inr (xs @ ys)))"
proof (induction rs)
  case Nil
  then show ?case by (simp split: sum.splits)
next
  case (Cons r rs)
  then show ?case by (cases r) (simp_all split: sum.splits)
qed

subsection \<open>Lists\<close>

lemma sum_list_map_le:
  fixes f g :: "'a \<Rightarrow> nat"
  assumes "\<And>x. x \<in> set xs \<Longrightarrow> f x \<le> g x"
  shows "sum_list (map f xs) \<le> sum_list (map g xs)"
  using assms by (induction xs) (auto intro: add_mono)

lemma member_less_Suc_sum_list:
  fixes f :: "'a \<Rightarrow> nat"
  shows "x \<in> set xs \<Longrightarrow> f x < Suc (sum_list (map f xs))"
  by (induction xs) auto

lemma concat_map_subset:
  assumes "\<And>x. x \<in> set xs \<Longrightarrow> set (f x) \<subseteq> set (g x)"
  shows "set (concat (map f xs)) \<subseteq> set (concat (map g xs))"
  using assms by (induction xs) auto

lemma concat_map_concat_map:
  "concat (map f (concat (map g xs))) = concat (map (\<lambda>x. concat (map f (g x))) xs)"
  by (induction xs) simp_all

lemma filter_concat_map:
  "filter P (concat (map g xs)) = concat (map (\<lambda>x. filter P (g x)) xs)"
  by (induction xs) simp_all

lemma map_concat_map:
  "map f (concat (map g xs)) = concat (map (\<lambda>x. map f (g x)) xs)"
  by (induction xs) simp_all

lemma concat_map_cong_set:
  "(\<And>x. x \<in> set xs \<Longrightarrow> f x = g x) \<Longrightarrow> concat (map f xs) = concat (map g xs)"
  by (induction xs) simp_all

lemma list_all_concat_map:
  "list_all P (concat (map f xs)) \<longleftrightarrow> list_all (\<lambda>x. list_all P (f x)) xs"
  by (induction xs) simp_all

lemma list_all_map_iff: "list_all P (map f xs) \<longleftrightarrow> list_all (\<lambda>x. P (f x)) xs"
  by (simp add: list_all_iff)

lemma length_concat_le:
  assumes "\<And>x. x \<in> set xs \<Longrightarrow> length (f x) \<le> k * length (g x)"
  shows "length (concat (map f xs)) \<le> k * length (concat (map g xs))"
  using assms by (induction xs) (auto simp: algebra_simps intro: add_mono)

lemma length_concat_mono:
  assumes "\<And>x. x \<in> set xs \<Longrightarrow> length (f x) \<le> length (g x)"
  shows "length (concat (map f xs)) \<le> length (concat (map g xs))"
  using assms by (induction xs) (auto intro: add_mono)


lemma all_ok_collect:
  "collect (map (map_sum id g) rs) = map_sum id (\<lambda>js. concat (map g js)) (all_ok rs)"
proof (induction rs)
  case (Cons r rs)
  then show ?case by (cases r; cases "all_ok rs") simp_all
qed simp

lemma all_ok_map_if:
  assumes "\<And>x. x \<in> set xs \<Longrightarrow> f x = (if P x then Inr (g x) else Inl e)"
  shows "all_ok (map f xs) = (if list_all P xs then Inr (map g xs) else Inl e)"
  using assms by (induction xs) auto

subsection \<open>Two lists side by side\<close>

lemma map2_same: "map2 f xs xs = map (\<lambda>x. f x x) xs"
  by (induction xs) simp_all

lemma map2_map_map: "map2 f (map g xs) (map h xs) = map (\<lambda>x. f (g x) (h x)) xs"
  by (induction xs) simp_all

end
