(* ===== verification/Item_Model.thy ===== *)
theory Item_Model
  imports TOC_Prelude
begin

text \<open>
  The data of \<^verbatim>\<open>TableOfContentsItems.tsx\<close>, lines 13 to 28: the tag \<open>ItemType\<close> and the
  recursive entry \<open>Item\<close> with the two fields that \<open>ItemWithId\<close> and
  \<open>ItemWithStateAndId\<close> add. At run time one object carries all six fields, and the
  component reads \<open>id\<close> and \<open>isOpen\<close> on nested entries as well, so one datatype models
  the three interfaces; an optional field that is absent is \<open>None\<close>. The field \<open>id\<close>
  is called \<open>item_id\<close> here, because \<open>id\<close> is the identity function of HOL.

  \<open>ItemType\<close> has a fourth constructor for a tag outside the union: the type checker
  rules it out, the \<open>default\<close> branch of \<open>getItemComponent\<close> is written for it.

  The rest of the theory is the vocabulary in which the properties of the components are
  stated: the entries of a tree in document order, the identifiers in use, the
  well-formedness the specification asks of a tree, and the entries a rendering shows.
\<close>

datatype ItemType = TMenu | TLink | TBulletLink | TOther string

datatype Item =
  Item (title: string) (type: ItemType) (path: "string option")
       (children: "Item list option") (item_id: string) (isOpen: "bool option")

type_synonym ItemWithId = Item
type_synonym ItemWithStateAndId = Item

definition kids :: "Item \<Rightarrow> Item list" where
  "kids it = (case children it of None \<Rightarrow> [] | Some cs \<Rightarrow> cs)"

lemma kids_simps [simp]:
  "kids (Item t ty p None i b) = []"
  "kids (Item t ty p (Some cs) i b) = cs"
  by (simp_all add: kids_def)

lemma size_kids [termination_simp]: "c \<in> set (kids it) \<Longrightarrow> size c < size it"
proof (cases it)
  case (Item t ty p ch i b)
  assume c: "c \<in> set (kids it)"
  with Item obtain cs where ch: "ch = Some cs" and "c \<in> set cs"
    by (cases ch) auto
  then have "size c \<le> size_list size cs"
    by (auto intro: size_list_estimation')
  with Item ch show ?thesis by simp
qed

text \<open>Induction over an entry with the hypothesis for each of its children.\<close>

lemma Item_kids_induct [case_names Item]:
  assumes "\<And>it. (\<And>c. c \<in> set (kids it) \<Longrightarrow> P c) \<Longrightarrow> P it"
  shows "P it"
proof (induction it rule: measure_induct_rule [where f = size])
  case (less it)
  show ?case by (rule assms) (rule less.IH, rule size_kids)
qed

lemma size_list_kids: "size_list size (kids it) < size it"
  by (cases it) (simp add: kids_def split: option.splits)

text \<open>Induction over a list of entries with the hypothesis for the children of the first.\<close>

lemma forest_induct [case_names Nil Cons]:
  assumes "P []" and "\<And>it its. P (kids it) \<Longrightarrow> P its \<Longrightarrow> P (it # its)"
  shows "P its"
proof (induction its rule: measure_induct_rule [where f = "size_list size"])
  case (less its)
  show ?case
  proof (cases its)
    case Nil
    with assms(1) show ?thesis by simp
  next
    case (Cons it its')
    have "size_list size (kids it) < size_list size its"
      using size_list_kids [of it] by (simp add: Cons)
    then have "P (kids it)" by (rule less.IH)
    moreover have "P its'" by (rule less.IH) (simp add: Cons)
    ultimately show ?thesis unfolding Cons by (rule assms(2))
  qed
qed

subsection \<open>The entries of a tree\<close>

fun nodes :: "Item \<Rightarrow> Item list" where
  "nodes it = it # concat (map nodes (kids it))"

declare nodes.simps [simp del]

definition forest :: "Item list \<Rightarrow> Item list" where
  "forest its = concat (map nodes its)"

definition ids :: "Item list \<Rightarrow> string list" where
  "ids its = map item_id (forest its)"

text \<open>
  The entries a rendering shows: every entry of the list, and below an entry of type
  \<open>menu\<close> that is open its children, recursively. Children of a closed menu, and
  children hung on a link, are not shown.
\<close>

fun shown :: "Item \<Rightarrow> Item list" where
  "shown it =
     (if type it = TMenu
      then (case children it of
              None \<Rightarrow> []
            | Some cs \<Rightarrow> it # (if truthy (isOpen it) then concat (map shown (kids it)) else []))
      else [it])"

declare shown.simps [simp del]

definition visible :: "Item list \<Rightarrow> Item list" where
  "visible its = concat (map shown its)"

subsection \<open>Well-formed trees\<close>

fun recognised :: "ItemType \<Rightarrow> bool" where
  "recognised (TOther s) = False"
| "recognised _ = True"

definition wf_entry :: "Item \<Rightarrow> bool" where
  "wf_entry it \<longleftrightarrow>
     recognised (type it) \<and> (type it = TMenu \<longrightarrow> kids it \<noteq> [])"

definition wf_items :: "Item list \<Rightarrow> bool" where
  "wf_items its \<longleftrightarrow> list_all wf_entry (forest its) \<and> distinct (ids its)"

subsection \<open>The tree of the specification's scenario\<close>

text \<open>
  A link \<open>A\<close> and a menu \<open>B\<close> with one child, the link \<open>C\<close>; the argument is the
  open flag of \<open>B\<close>. The witnesses of the development are stated on it.
\<close>

definition scenario :: "bool option \<Rightarrow> Item list" where
  "scenario b =
     [Item ''A'' TLink (Some ''/a'') None ''a'' None,
      Item ''B'' TMenu None (Some [Item ''C'' TLink (Some ''/c'') None ''c'' None]) ''b'' b]"

subsection \<open>Lemmas\<close>

lemma nodes_Item [simp]:
  "nodes (Item t ty p None i b) = [Item t ty p None i b]"
  "nodes (Item t ty p (Some cs) i b) = Item t ty p (Some cs) i b # concat (map nodes cs)"
  by (simp_all add: nodes.simps)

lemma nodes_eq: "nodes it = it # forest (kids it)"
  by (simp add: nodes.simps forest_def)

lemma self_in_nodes [simp]: "it \<in> set (nodes it)"
  by (simp add: nodes_eq)

lemma forest_simps [simp]:
  "forest [] = []"
  "forest (it # its) = nodes it @ forest its"
  "forest (xs @ ys) = forest xs @ forest ys"
  by (simp_all add: forest_def)

lemma forest_superset: "set its \<subseteq> set (forest its)"
  by (induction its) auto

lemma kids_in_nodes: "c \<in> set (kids it) \<Longrightarrow> set (nodes c) \<subseteq> set (nodes it)"
  by (auto simp: nodes_eq [of it] forest_def)

lemma nodes_in_forest: "it \<in> set its \<Longrightarrow> set (nodes it) \<subseteq> set (forest its)"
  by (auto simp: forest_def)

lemma ids_simps [simp]:
  "ids [] = []"
  "ids (it # its) = item_id it # ids (kids it) @ ids its"
  "ids (xs @ ys) = ids xs @ ids ys"
  by (simp_all add: ids_def nodes_eq)

lemma shown_Item [simp]:
  "ty \<noteq> TMenu \<Longrightarrow> shown (Item t ty p ch i b) = [Item t ty p ch i b]"
  "shown (Item t TMenu p None i b) = []"
  "shown (Item t TMenu p (Some cs) i b) =
     Item t TMenu p (Some cs) i b # (if truthy b then concat (map shown cs) else [])"
  by (simp_all add: shown.simps)

lemma visible_simps [simp]:
  "visible [] = []"
  "visible (it # its) = shown it @ visible its"
  "visible (xs @ ys) = visible xs @ visible ys"
  by (simp_all add: visible_def)

lemma shown_eq:
  "shown it =
     (if type it = TMenu
      then (if children it = None then []
            else it # (if truthy (isOpen it) then visible (kids it) else []))
      else [it])"
  by (subst shown.simps) (simp add: visible_def split: option.splits)

lemma shown_subset_nodes: "set (shown it) \<subseteq> set (nodes it)"
proof (induction it rule: Item_kids_induct)
  case (Item it)
  then have "set (visible (kids it)) \<subseteq> set (forest (kids it))"
    unfolding visible_def forest_def by (rule concat_map_subset)
  then have "set (it # visible (kids it)) \<subseteq> set (nodes it)"
    by (auto simp: nodes_eq)
  then show ?case by (auto simp: shown_eq)
qed

lemma visible_subset_forest: "set (visible its) \<subseteq> set (forest its)"
  unfolding visible_def forest_def by (rule concat_map_subset) (rule shown_subset_nodes)

lemma visible_scenario:
  "visible (scenario b) =
     (if truthy b then scenario b @ [Item ''C'' TLink (Some ''/c'') None ''c'' None]
      else scenario b)"
  by (simp add: scenario_def)

lemma wf_items_scenario [simp]: "wf_items (scenario b)"
  by (simp add: scenario_def wf_items_def wf_entry_def)

lemma visible_ids: "m \<in> set (visible its) \<Longrightarrow> item_id m \<in> set (ids its)"
  using visible_subset_forest [of its] by (auto simp: ids_def)

lemma wf_items_Nil [simp]: "wf_items []"
  by (simp add: wf_items_def)

lemma wf_items_entry: "wf_items its \<Longrightarrow> it \<in> set (forest its) \<Longrightarrow> wf_entry it"
  by (simp add: wf_items_def list_all_iff)

lemma wf_items_distinct: "wf_items its \<Longrightarrow> distinct (ids its)"
  by (simp add: wf_items_def)

lemma wf_items_kids:
  assumes "wf_items its" and "it \<in> set its"
  shows "wf_items (kids it)"
proof -
  from split_list [OF assms(2)] obtain xs ys where its: "its = xs @ it # ys"
    by blast
  with assms(1) have "list_all wf_entry (forest (kids it))" and "distinct (ids (kids it))"
    by (simp_all add: wf_items_def nodes_eq)
  then show ?thesis by (simp add: wf_items_def)
qed

lemma wf_items_visible_recognised:
  assumes "wf_items its" and "it \<in> set (visible its)"
  shows "recognised (type it)"
proof -
  from assms(2) visible_subset_forest have "it \<in> set (forest its)" by blast
  with assms(1) have "wf_entry it" by (rule wf_items_entry)
  then show ?thesis by (simp add: wf_entry_def)
qed

end
