(* ===== verification/Elements.thy ===== *)
theory Elements
  imports Item_Model
begin

text \<open>
  What the two components of \<^verbatim>\<open>TableOfContentsItems.tsx\<close> take and what they return.

  \<^bold>\<open>Props.\<close> \<open>MenuProps\<close> (lines 80 to 85) and \<open>TableOfContentsItemsProps\<close> (lines 163
  to 169) share three fields, \<open>currentPath\<close>, \<open>isTopLevel\<close> and
  \<open>setMenuOpenStateById\<close>; the record \<open>SharedProps\<close> holds them once, with \<open>rest\<close>
  for whatever else a caller passes and the components hand down by \<^verbatim>\<open>{...rest}\<close>. A
  field is optional here when some caller in the file can leave it out:
  \<open>isTopLevel\<close> (optional in \<open>MenuProps\<close>, defaulted in the parameter list of
  \<open>TableOfContentsItems\<close>), \<open>setMenuOpenStateById\<close> (optional in
  \<open>TableOfContentsItemsProps\<close>, and \<open>Menu\<close> only ever receives it from there) and
  \<open>className\<close>. The callback itself is not run by this file, so its type is the
  variable \<open>'cb\<close>: the components only pass it on and name it as the callee of a click.

  \<^bold>\<open>Elements.\<close> \<open>node\<close> has one constructor per JSX tag of the file, with the props
  that tag is given, plus text and \<open>Nothing\<close> for the values React skips (\<open>null\<close>,
  \<open>undefined\<close>, \<open>false\<close>). \<open>ItemComponent_el\<close> is the tag whose component is
  looked up at run time (line 185): it carries the result of the lookup, which may be
  \<open>None\<close>. A click handler is kept as data: the callee and the argument it will be
  called with.

  \<^bold>\<open>Observations.\<close> \<open>subnodes\<close>, \<open>gather\<close>, \<open>handlers\<close>, \<open>entries\<close> and \<open>nested\<close> read a tree of
  elements; the properties of the components are stated with them.
\<close>

record 'cb SharedProps =
  currentPath :: string
  isTopLevel :: "bool option"
  setMenuOpenStateById :: "'cb option"
  rest :: "(string \<times> string) list"

record 'cb MenuProps = "'cb SharedProps" +
  item :: ItemWithStateAndId

record 'cb TableOfContentsItemsProps = "'cb SharedProps" +
  className :: "string option"
  items :: "ItemWithStateAndId list"

record SetMenuOpenStateByIdArgs =
  arg_id :: string
  arg_isOpen :: bool

datatype 'cb handler =
  Handler (callee: "'cb option") (payload: SetMenuOpenStateByIdArgs)

datatype component = MenuC | ItemLinkC | BulletLinkC

datatype list_tag = ol | ul

datatype 'cb node =
    ItemComponent_el "component option" string "'cb MenuProps"
  | TableOfContentsItems_el "'cb TableOfContentsItemsProps"
  | List_el "string option" bool list_tag "'cb node list"
  | li_el "'cb node list"
  | TopLevelMenuToggle_el "'cb handler" "'cb node list"
  | MenuLink_el "'cb handler" "'cb node list"
  | span_el "'cb node list"
  | ArrowIcon_el "bool option" "bool option"
  | Text string
  | Nothing

definition scenario_props :: "bool option \<Rightarrow> unit TableOfContentsItemsProps" where
  "scenario_props b =
     \<lparr>currentPath = ''/a'', isTopLevel = Some True, setMenuOpenStateById = Some (),
      rest = [], className = None, items = scenario b\<rparr>"

subsection \<open>Reading a tree of elements\<close>

fun child_nodes :: "'cb node \<Rightarrow> 'cb node list" where
  "child_nodes (List_el c t a ns) = ns"
| "child_nodes (li_el ns) = ns"
| "child_nodes (TopLevelMenuToggle_el h ns) = ns"
| "child_nodes (MenuLink_el h ns) = ns"
| "child_nodes (span_el ns) = ns"
| "child_nodes _ = []"

lemma size_child_nodes [termination_simp]:
  fixes c n :: "'cb node"
  shows "c \<in> set (child_nodes n) \<Longrightarrow> size c < size n"
proof -
  have "c \<in> set ns \<Longrightarrow> size c \<le> size_list size ns" for ns
    using size_list_estimation' [of c ns "size c" size] by simp
  then show "c \<in> set (child_nodes n) \<Longrightarrow> size c < size n"
    by (cases n) (auto simp: less_Suc_eq_le intro: trans_le_add2)
qed

fun subnodes :: "'cb node \<Rightarrow> 'cb node list" where
  "subnodes n = n # concat (map subnodes (child_nodes n))"

declare subnodes.simps [simp del]

fun handler_of :: "'cb node \<Rightarrow> 'cb handler list" where
  "handler_of (TopLevelMenuToggle_el h ns) = [h]"
| "handler_of (MenuLink_el h ns) = [h]"
| "handler_of _ = []"

definition gather :: "('cb node \<Rightarrow> 'a list) \<Rightarrow> 'cb node \<Rightarrow> 'a list" where
  "gather f n = concat (map f (subnodes n))"

definition handlers :: "'cb node \<Rightarrow> 'cb handler list" where
  "handlers = gather handler_of"

fun entry_of :: "'cb node \<Rightarrow> Item list" where
  "entry_of (ItemComponent_el c k p) = [item p]"
| "entry_of _ = []"

definition entries :: "'cb node \<Rightarrow> Item list" where
  "entries = gather entry_of"

fun nested_of :: "'cb node \<Rightarrow> 'cb TableOfContentsItemsProps list" where
  "nested_of (TableOfContentsItems_el p) = [p]"
| "nested_of _ = []"

definition nested :: "'cb node \<Rightarrow> 'cb TableOfContentsItemsProps list" where
  "nested = gather nested_of"

fun host :: "'cb node \<Rightarrow> bool" where
  "host (ItemComponent_el c k p) = (c = Some ItemLinkC \<or> c = Some BulletLinkC)"
| "host (TableOfContentsItems_el p) = False"
| "host Nothing = False"
| "host _ = True"

definition rendered :: "'cb node \<Rightarrow> bool" where
  "rendered n = list_all host (subnodes n)"

subsection \<open>Lemmas\<close>

lemma subnodes_simps [simp]:
  "subnodes (ItemComponent_el c k p) = [ItemComponent_el c k p]"
  "subnodes (TableOfContentsItems_el q) = [TableOfContentsItems_el q]"
  "subnodes (List_el cn t a ns) = List_el cn t a ns # concat (map subnodes ns)"
  "subnodes (li_el ns) = li_el ns # concat (map subnodes ns)"
  "subnodes (TopLevelMenuToggle_el h ns) = TopLevelMenuToggle_el h ns # concat (map subnodes ns)"
  "subnodes (MenuLink_el h ns) = MenuLink_el h ns # concat (map subnodes ns)"
  "subnodes (span_el ns) = span_el ns # concat (map subnodes ns)"
  "subnodes (ArrowIcon_el o1 o2) = [ArrowIcon_el o1 o2]"
  "subnodes (Text s) = [Text s]"
  "subnodes Nothing = [Nothing]"
  by (simp_all add: subnodes.simps [of "ItemComponent_el c k p"]
      subnodes.simps [of "TableOfContentsItems_el q"] subnodes.simps [of "List_el cn t a ns"]
      subnodes.simps [of "li_el ns"] subnodes.simps [of "TopLevelMenuToggle_el h ns"]
      subnodes.simps [of "MenuLink_el h ns"] subnodes.simps [of "span_el ns"]
      subnodes.simps [of "ArrowIcon_el o1 o2"] subnodes.simps [of "Text s"]
      subnodes.simps [of Nothing])

lemma gather_children:
  "concat (map f (concat (map subnodes ns))) = concat (map (gather f) ns)"
  by (induction ns) (simp_all add: gather_def)

lemma handlers_simps [simp]:
  "handlers (ItemComponent_el c k p) = []"
  "handlers (TableOfContentsItems_el q) = []"
  "handlers (List_el cn t a ns) = concat (map handlers ns)"
  "handlers (li_el ns) = concat (map handlers ns)"
  "handlers (TopLevelMenuToggle_el h ns) = h # concat (map handlers ns)"
  "handlers (MenuLink_el h ns) = h # concat (map handlers ns)"
  "handlers (span_el ns) = concat (map handlers ns)"
  "handlers (ArrowIcon_el o1 o2) = []"
  "handlers (Text s) = []"
  "handlers Nothing = []"
  by (simp_all add: handlers_def gather_def gather_children)

lemma entries_simps [simp]:
  "entries (ItemComponent_el c k p) = [item p]"
  "entries (TableOfContentsItems_el q) = []"
  "entries (List_el cn t a ns) = concat (map entries ns)"
  "entries (li_el ns) = concat (map entries ns)"
  "entries (TopLevelMenuToggle_el h ns) = concat (map entries ns)"
  "entries (MenuLink_el h ns) = concat (map entries ns)"
  "entries (span_el ns) = concat (map entries ns)"
  "entries (ArrowIcon_el o1 o2) = []"
  "entries (Text s) = []"
  "entries Nothing = []"
  by (simp_all add: entries_def gather_def gather_children)

lemma nested_simps [simp]:
  "nested (ItemComponent_el c k p) = []"
  "nested (TableOfContentsItems_el q) = [q]"
  "nested (List_el cn t a ns) = concat (map nested ns)"
  "nested (li_el ns) = concat (map nested ns)"
  "nested (TopLevelMenuToggle_el h ns) = concat (map nested ns)"
  "nested (MenuLink_el h ns) = concat (map nested ns)"
  "nested (span_el ns) = concat (map nested ns)"
  "nested (ArrowIcon_el o1 o2) = []"
  "nested (Text s) = []"
  "nested Nothing = []"
  by (simp_all add: nested_def gather_def gather_children)

lemma rendered_simps [simp]:
  "rendered (ItemComponent_el c k p) \<longleftrightarrow> c = Some ItemLinkC \<or> c = Some BulletLinkC"
  "rendered (TableOfContentsItems_el q) = False"
  "rendered (List_el cn t a ns) = list_all rendered ns"
  "rendered (li_el ns) = list_all rendered ns"
  "rendered (TopLevelMenuToggle_el h ns) = list_all rendered ns"
  "rendered (MenuLink_el h ns) = list_all rendered ns"
  "rendered (span_el ns) = list_all rendered ns"
  "rendered (ArrowIcon_el o1 o2) = True"
  "rendered (Text s) = True"
  "rendered Nothing = False"
  by (auto simp: rendered_def list_all_iff)

lemma scenario_props_sel [simp]:
  "currentPath (scenario_props b) = ''/a''"
  "isTopLevel (scenario_props b) = Some True"
  "setMenuOpenStateById (scenario_props b) = Some ()"
  "rest (scenario_props b) = []"
  "className (scenario_props b) = None"
  "items (scenario_props b) = scenario b"
  by (simp_all add: scenario_props_def)

lemma rendered_no_nested: "rendered n \<Longrightarrow> nested n = []"
proof (induction n)
  case (List_el cn t a ns)
  then show ?case by (simp add: list_all_iff)
next
  case (li_el ns)
  then show ?case by (simp add: list_all_iff)
next
  case (TopLevelMenuToggle_el h ns)
  then show ?case by (simp add: list_all_iff)
next
  case (MenuLink_el h ns)
  then show ?case by (simp add: list_all_iff)
next
  case (span_el ns)
  then show ?case by (simp add: list_all_iff)
qed simp_all

end
