(* ===== verification/Components.thy ===== *)
theory Components
  imports Elements
begin

text \<open>
  The functions of \<^verbatim>\<open>TableOfContentsItems.tsx\<close>, each translated from its body:
  \<^item> \<open>getItemComponent\<close> (lines 30 to 41), the \<open>switch\<close> from a tag to a component,
    with \<open>None\<close> for the \<open>default\<close> branch;
  \<^item> \<open>toggleOpenState\<close> (line 90), the click handler a menu builds, and \<open>onClick\<close>,
    what running it does: it calls \<open>setMenuOpenStateById\<close>, which fails when that prop
    is \<open>undefined\<close>;
  \<^item> \<open>Menu\<close> (lines 87 to 116) with its \<open>defaultProps\<close> (lines 118 to 120);
  \<^item> \<open>TableOfContentsItems\<close> (lines 171 to 196) with its \<open>defaultProps\<close> (lines 198
    to 200).
  A component function returns the elements it creates and does not call the components
  they name: that is the renderer's work (theory \<open>Render\<close>). The lemmas say what each
  function returns on every branch, in terms of the observations of theory \<open>Elements\<close>.
\<close>

fun getItemComponent :: "ItemType \<Rightarrow> component option" where
  "getItemComponent TMenu = Some MenuC"
| "getItemComponent TLink = Some ItemLinkC"
| "getItemComponent TBulletLink = Some BulletLinkC"
| "getItemComponent (TOther s) = None"

definition toggleOpenState :: "'cb MenuProps \<Rightarrow> 'cb handler" where
  "toggleOpenState p =
     Handler (setMenuOpenStateById p)
       \<lparr>arg_id = item_id (item p), arg_isOpen = \<not> truthy (isOpen (item p))\<rparr>"

definition onClick :: "'cb handler \<Rightarrow> ('cb \<times> SetMenuOpenStateByIdArgs) result" where
  "onClick h = (case callee h of None \<Rightarrow> Inl NotAFunction | Some cb \<Rightarrow> Inr (cb, payload h))"

definition Menu :: "'cb MenuProps \<Rightarrow> 'cb node" where
  "Menu p =
    (case children (item p) of
       None \<Rightarrow> Nothing
     | Some cs \<Rightarrow>
        (let arrow = ArrowIcon_el (isOpen (item p)) (isTopLevel p)
         in li_el
           [if truthy (isTopLevel p)
            then TopLevelMenuToggle_el (toggleOpenState p) [arrow, span_el [Text (title (item p))]]
            else MenuLink_el (toggleOpenState p) [Text (title (item p)), arrow],
            if truthy (isOpen (item p))
            then TableOfContentsItems_el
                   \<lparr>currentPath = currentPath p, isTopLevel = Some False,
                    setMenuOpenStateById = setMenuOpenStateById p, rest = rest p,
                    className = None, items = cs\<rparr>
            else Nothing]))"

definition Menu_defaultProps :: "'cb MenuProps \<Rightarrow> 'cb MenuProps" where
  "Menu_defaultProps p =
     (case isTopLevel p of None \<Rightarrow> p\<lparr>isTopLevel := Some False\<rparr> | Some b \<Rightarrow> p)"

definition TableOfContentsItems :: "'cb TableOfContentsItemsProps \<Rightarrow> 'cb node" where
  "TableOfContentsItems p =
    (let isTopLevel' = (case isTopLevel p of None \<Rightarrow> False | Some b \<Rightarrow> b);
         isOrderedList = list_all (\<lambda>item. type item = TBulletLink) (items p)
     in List_el (className p) isTopLevel' (if isOrderedList then ol else ul)
          (map (\<lambda>item.
             let ItemComponent = getItemComponent (type item)
             in ItemComponent_el ItemComponent (title item)
                  \<lparr>currentPath = currentPath p, isTopLevel = Some isTopLevel',
                   setMenuOpenStateById = setMenuOpenStateById p, rest = rest p,
                   item = item\<rparr>)
            (items p)))"

definition TableOfContentsItems_defaultProps ::
  "'cb TableOfContentsItemsProps \<Rightarrow> 'cb TableOfContentsItemsProps" where
  "TableOfContentsItems_defaultProps p =
     (case className p of None \<Rightarrow> p\<lparr>className := Some ''''\<rparr> | Some c \<Rightarrow> p)"

lemmas [toc_defs] =
  Menu_def TableOfContentsItems_def Menu_defaultProps_def
  TableOfContentsItems_defaultProps_def toggleOpenState_def onClick_def Let_def

subsection \<open>The lookup\<close>

lemma getItemComponent_eq_None_iff: "getItemComponent t = None \<longleftrightarrow> \<not> recognised t"
  by (cases t) simp_all

lemma getItemComponent_eq_Some_iff [simp]:
  "getItemComponent t = Some MenuC \<longleftrightarrow> t = TMenu"
  "getItemComponent t = Some ItemLinkC \<longleftrightarrow> t = TLink"
  "getItemComponent t = Some BulletLinkC \<longleftrightarrow> t = TBulletLink"
  by (cases t; simp; fail)+

text \<open>
  The lookup tells the three kinds of entry apart: two tags that get the same
  component are the same tag, unless neither is recognised (then both get \<open>null\<close>).
\<close>

lemma getItemComponent_inj:
  "getItemComponent t = getItemComponent t' \<Longrightarrow> recognised t \<Longrightarrow> t = t'"
  by (cases t; cases t') simp_all

subsection \<open>Defaults\<close>

lemma Menu_defaultProps_frame [simp, toc_frame]:
  "item (Menu_defaultProps p) = item p"
  "currentPath (Menu_defaultProps p) = currentPath p"
  "setMenuOpenStateById (Menu_defaultProps p) = setMenuOpenStateById p"
  "rest (Menu_defaultProps p) = rest p"
  by (simp_all add: Menu_defaultProps_def split: option.splits)

lemma Menu_defaultProps_isTopLevel [simp]:
  "truthy (isTopLevel (Menu_defaultProps p)) = truthy (isTopLevel p)"
  "isTopLevel (Menu_defaultProps p) = Some (truthy (isTopLevel p))"
  by (simp_all add: Menu_defaultProps_def split: option.splits)

lemma Menu_defaultProps_idem [simp]:
  "Menu_defaultProps (Menu_defaultProps p) = Menu_defaultProps p"
  by (simp add: Menu_defaultProps_def split: option.splits)

lemma TableOfContentsItems_defaultProps_frame [simp, toc_frame]:
  "items (TableOfContentsItems_defaultProps p) = items p"
  "currentPath (TableOfContentsItems_defaultProps p) = currentPath p"
  "isTopLevel (TableOfContentsItems_defaultProps p) = isTopLevel p"
  "setMenuOpenStateById (TableOfContentsItems_defaultProps p) = setMenuOpenStateById p"
  "rest (TableOfContentsItems_defaultProps p) = rest p"
  by (simp_all add: TableOfContentsItems_defaultProps_def split: option.splits)

lemma TableOfContentsItems_defaultProps_className [simp]:
  "className (TableOfContentsItems_defaultProps p) =
     Some (case className p of None \<Rightarrow> '''' | Some c \<Rightarrow> c)"
  by (simp add: TableOfContentsItems_defaultProps_def split: option.splits)

subsection \<open>The click handler\<close>

lemma toggleOpenState_sel [simp]:
  "callee (toggleOpenState p) = setMenuOpenStateById p"
  "arg_id (payload (toggleOpenState p)) = item_id (item p)"
  "arg_isOpen (payload (toggleOpenState p)) = (\<not> truthy (isOpen (item p)))"
  by (simp_all add: toggleOpenState_def)

lemma toggleOpenState_defaultProps [simp]:
  "toggleOpenState (Menu_defaultProps p) = toggleOpenState p"
  by (simp add: toggleOpenState_def)

text \<open>
  C4. A click on a menu's toggle calls the callback with the identifier of that menu
  and the negation of its current state, where an absent \<open>isOpen\<close> counts as closed; when
  the callback prop was not passed, the click fails with a call of \<open>undefined\<close>.
\<close>

theorem onClick_toggleOpenState:
  "onClick (toggleOpenState p) =
     (case setMenuOpenStateById p of
        None \<Rightarrow> Inl NotAFunction
      | Some cb \<Rightarrow>
          Inr (cb, \<lparr>arg_id = item_id (item p), arg_isOpen = \<not> truthy (isOpen (item p))\<rparr>))"
  by (simp add: onClick_def toggleOpenState_def split: option.splits)

subsection \<open>Menu\<close>

lemma Menu_None [simp]: "children (item p) = None \<Longrightarrow> Menu p = Nothing"
  by (simp add: Menu_def)

lemma Menu_Some:
  "children (item p) = Some cs \<Longrightarrow>
   Menu p =
     li_el
       [if truthy (isTopLevel p)
        then TopLevelMenuToggle_el (toggleOpenState p)
               [ArrowIcon_el (isOpen (item p)) (isTopLevel p), span_el [Text (title (item p))]]
        else MenuLink_el (toggleOpenState p)
               [Text (title (item p)), ArrowIcon_el (isOpen (item p)) (isTopLevel p)],
        if truthy (isOpen (item p))
        then TableOfContentsItems_el
               \<lparr>currentPath = currentPath p, isTopLevel = Some False,
                setMenuOpenStateById = setMenuOpenStateById p, rest = rest p,
                className = None, items = cs\<rparr>
        else Nothing]"
  by (simp add: Menu_def)

text \<open>
  C36. A menu renders nothing exactly when its entry has no \<open>children\<close> field,
  whatever \<open>isOpen\<close> and \<open>isTopLevel\<close> are; an entry with an empty list of children
  still gets its list item and toggle.
\<close>

theorem Menu_eq_Nothing_iff: "Menu p = Nothing \<longleftrightarrow> children (item p) = None"
  by (cases "children (item p)") (simp_all add: Menu_Some)

text \<open>
  C37. A menu with children carries exactly one click handler, the one that toggles
  this menu; a menu without children carries none.
\<close>

theorem handlers_Menu:
  "handlers (Menu p) = (if children (item p) = None then [] else [toggleOpenState p])"
  by (cases "children (item p)") (simp_all add: Menu_Some)

text \<open>
  C38. A menu hands its children to a nested \<open>TableOfContentsItems\<close> exactly when it
  has children and is open. The nested list is never top-level, gets the same current
  path, callback and remaining props, and no class name.
\<close>

theorem nested_Menu:
  "nested (Menu p) =
     (if children (item p) \<noteq> None \<and> truthy (isOpen (item p))
      then [\<lparr>currentPath = currentPath p, isTopLevel = Some False,
             setMenuOpenStateById = setMenuOpenStateById p, rest = rest p,
             className = None, items = kids (item p)\<rparr>]
      else [])"
  by (cases "children (item p)") (simp_all add: Menu_Some kids_def)

lemma entries_Menu [simp]: "entries (Menu p) = []"
  by (cases "children (item p)") (simp_all add: Menu_Some)

subsection \<open>TableOfContentsItems\<close>

lemma TableOfContentsItems_eq:
  "TableOfContentsItems p =
     List_el (className p) (truthy (isTopLevel p))
       (if list_all (\<lambda>item. type item = TBulletLink) (items p) then ol else ul)
       (map (\<lambda>item. ItemComponent_el (getItemComponent (type item)) (title item)
               \<lparr>currentPath = currentPath p, isTopLevel = Some (truthy (isTopLevel p)),
                setMenuOpenStateById = setMenuOpenStateById p, rest = rest p, item = item\<rparr>)
          (items p))"
  by (cases "isTopLevel p") (simp_all add: TableOfContentsItems_def)

text \<open>
  C5. The list is an ordered list exactly when every entry is a bulleted link, and an
  unordered list as soon as one entry is of another type; the empty list of entries is
  ordered.
\<close>

theorem TableOfContentsItems_ordered_iff:
  "(\<exists>c t ns. TableOfContentsItems p = List_el c t ol ns) \<longleftrightarrow>
     (\<forall>it \<in> set (items p). type it = TBulletLink)"
  by (simp add: TableOfContentsItems_eq list_all_iff)

theorem TableOfContentsItems_ordered_iff_witness:
  "\<not> (\<exists>c t ns. TableOfContentsItems
      \<lparr>currentPath = ''/'', isTopLevel = None, setMenuOpenStateById = Some (),
       rest = [], className = None,
       items = [Item ''a'' TBulletLink (Some ''/a'') None ''1'' None,
                Item ''b'' TLink (Some ''/b'') None ''2'' None]\<rparr> = List_el c t ol ns)"
  using TableOfContentsItems_ordered_iff
    [of "\<lparr>currentPath = ''/'', isTopLevel = None, setMenuOpenStateById = Some (),
       rest = [], className = None,
       items = [Item ''a'' TBulletLink (Some ''/a'') None ''1'' None,
                Item ''b'' TLink (Some ''/b'') None ''2'' None]\<rparr>"]
  by simp

text \<open>
  C39. The list has one child element per entry, in the order of the entries; no click
  handler and no nested list is created at this level.
\<close>

theorem entries_TableOfContentsItems:
  "entries (TableOfContentsItems p) = items p \<and>
   handlers (TableOfContentsItems p) = [] \<and>
   nested (TableOfContentsItems p) = []"
  by (simp add: TableOfContentsItems_eq comp_def)

end
