(* ===== verification/Render.thy ===== *)
theory Render
  imports Components
begin

text \<open>
  What React does with the elements the components return. The library is not part of
  the repository, so \<open>render\<close> is written from its documented behaviour and from the
  specification: an element of a function component is replaced by what the function
  returns for its props (after the component's \<open>defaultProps\<close> have filled the props
  that are \<open>undefined\<close>), recursively; an element of a tag or of an imported component
  stays, with its children rendered in order; \<open>null\<close>, \<open>undefined\<close> and \<open>false\<close> leave
  nothing; an element whose type is \<open>null\<close> is refused (\<open>InvalidElementType\<close>).

  The recursion of \<open>render\<close> follows the values the components compute, not the
  structure of its argument: \<open>weight\<close> is the measure under which every call gets
  smaller, which is the termination of the two components' mutual recursion on every
  finite tree of entries.

  \<open>view\<close> and \<open>view_list\<close> describe the same output directly, by recursion over the
  entries: the reference against which \<open>render\<close> is proved.
\<close>

fun weight :: "'cb node \<Rightarrow> nat" where
  "weight (ItemComponent_el c k p) = 8 * size (item p)"
| "weight (TableOfContentsItems_el p) = 2 + 8 * size_list size (items p)"
| "weight (List_el c t a ns) = 1 + sum_list (map weight ns)"
| "weight (li_el ns) = 1 + sum_list (map weight ns)"
| "weight (TopLevelMenuToggle_el h ns) = 1 + sum_list (map weight ns)"
| "weight (MenuLink_el h ns) = 1 + sum_list (map weight ns)"
| "weight (span_el ns) = 1 + sum_list (map weight ns)"
| "weight (ArrowIcon_el o1 o2) = 1"
| "weight (Text s) = 1"
| "weight Nothing = 1"

lemma weight_items: "sum_list (map (\<lambda>i. 8 * size i) xs) \<le> 8 * size_list size (xs :: Item list)"
  by (induction xs) auto

lemma weight_Menu: "weight (Menu (Menu_defaultProps p)) < 8 * size (item p)"
  by (cases "item p") (auto simp: Menu_def Menu_defaultProps_def Let_def split: option.splits)

lemma weight_TableOfContentsItems:
  "weight (TableOfContentsItems (TableOfContentsItems_defaultProps p))
     < Suc (Suc (8 * size_list size (items p)))"
  using weight_items [of "items p"]
  by (simp add: TableOfContentsItems_eq comp_def)

function render :: "'cb node \<Rightarrow> 'cb node list result" where
  "render (ItemComponent_el None k p) = Inl InvalidElementType"
| "render (ItemComponent_el (Some MenuC) k p) = render (Menu (Menu_defaultProps p))"
| "render (ItemComponent_el (Some ItemLinkC) k p) = Inr [ItemComponent_el (Some ItemLinkC) k p]"
| "render (ItemComponent_el (Some BulletLinkC) k p) = Inr [ItemComponent_el (Some BulletLinkC) k p]"
| "render (TableOfContentsItems_el p) =
     render (TableOfContentsItems (TableOfContentsItems_defaultProps p))"
| "render (List_el c t a ns) = wrap (List_el c t a) (collect (map render ns))"
| "render (li_el ns) = wrap li_el (collect (map render ns))"
| "render (TopLevelMenuToggle_el h ns) = wrap (TopLevelMenuToggle_el h) (collect (map render ns))"
| "render (MenuLink_el h ns) = wrap (MenuLink_el h) (collect (map render ns))"
| "render (span_el ns) = wrap span_el (collect (map render ns))"
| "render (ArrowIcon_el o1 o2) = Inr [ArrowIcon_el o1 o2]"
| "render (Text s) = Inr [Text s]"
| "render Nothing = Inr []"
  by pat_completeness auto
termination
  by (relation "measure weight")
    (auto simp: weight_Menu weight_TableOfContentsItems member_less_Suc_sum_list)

declare render.simps(2,5) [simp del]

lemmas render_component = render.simps(2,5)

definition entry_el ::
  "string \<Rightarrow> 'cb option \<Rightarrow> (string \<times> string) list \<Rightarrow> bool \<Rightarrow> Item \<Rightarrow> 'cb node" where
  "entry_el cp cb r is_top it =
     ItemComponent_el (getItemComponent (type it)) (title it)
       \<lparr>currentPath = cp, isTopLevel = Some is_top, setMenuOpenStateById = cb,
        rest = r, item = it\<rparr>"

definition toggle_el :: "'cb MenuProps \<Rightarrow> 'cb node" where
  "toggle_el p =
     (if truthy (isTopLevel p)
      then TopLevelMenuToggle_el (toggleOpenState p)
             [ArrowIcon_el (isOpen (item p)) (isTopLevel p), span_el [Text (title (item p))]]
      else MenuLink_el (toggleOpenState p)
             [Text (title (item p)), ArrowIcon_el (isOpen (item p)) (isTopLevel p)])"

fun view ::
  "string \<Rightarrow> 'cb option \<Rightarrow> (string \<times> string) list \<Rightarrow> bool \<Rightarrow> Item \<Rightarrow> 'cb node list" where
  "view cp cb r is_top it =
    (case type it of
       TMenu \<Rightarrow>
         (case children it of
            None \<Rightarrow> []
          | Some cs \<Rightarrow>
              [li_el
                (toggle_el \<lparr>currentPath = cp, isTopLevel = Some is_top,
                            setMenuOpenStateById = cb, rest = r, item = it\<rparr>
                 # (if truthy (isOpen it)
                    then [List_el (Some '''') False
                            (if list_all (\<lambda>c. type c = TBulletLink) cs then ol else ul)
                            (concat (map (view cp cb r False) (kids it)))]
                    else []))])
     | TOther s \<Rightarrow> []
     | _ \<Rightarrow> [entry_el cp cb r is_top it])"

declare view.simps [simp del]

definition view_list :: "'cb TableOfContentsItemsProps \<Rightarrow> 'cb node" where
  "view_list p =
     List_el (Some (case className p of None \<Rightarrow> '''' | Some c \<Rightarrow> c)) (truthy (isTopLevel p))
       (if list_all (\<lambda>c. type c = TBulletLink) (items p) then ol else ul)
       (concat (map (view (currentPath p) (setMenuOpenStateById p) (rest p)
                       (truthy (isTopLevel p))) (items p)))"

subsection \<open>One step of each component\<close>

lemma render_toggle_el [simp]: "render (toggle_el p) = Inr [toggle_el p]"
  by (simp add: toggle_el_def)

lemma Menu_toggle_el:
  "children (item p) = Some cs \<Longrightarrow>
   Menu p =
     li_el [toggle_el p,
            if truthy (isOpen (item p))
            then TableOfContentsItems_el
                   \<lparr>currentPath = currentPath p, isTopLevel = Some False,
                    setMenuOpenStateById = setMenuOpenStateById p, rest = rest p,
                    className = None, items = cs\<rparr>
            else Nothing]"
  by (simp add: Menu_Some toggle_el_def)

lemma TableOfContentsItems_entry_el:
  "TableOfContentsItems p =
     List_el (className p) (truthy (isTopLevel p))
       (if list_all (\<lambda>item. type item = TBulletLink) (items p) then ol else ul)
       (map (entry_el (currentPath p) (setMenuOpenStateById p) (rest p) (truthy (isTopLevel p)))
          (items p))"
  by (simp add: TableOfContentsItems_eq entry_el_def)

lemma render_TableOfContentsItems_el:
  "render (TableOfContentsItems_el p) =
     wrap (List_el (Some (case className p of None \<Rightarrow> '''' | Some c \<Rightarrow> c))
             (truthy (isTopLevel p))
             (if list_all (\<lambda>item. type item = TBulletLink) (items p) then ol else ul))
       (collect (map (\<lambda>it. render (entry_el (currentPath p) (setMenuOpenStateById p) (rest p)
                                  (truthy (isTopLevel p)) it))
          (items p)))"
  by (simp add: render_component TableOfContentsItems_entry_el comp_def)

lemma render_Menu:
  "render (Menu p) =
     (case children (item p) of
        None \<Rightarrow> Inr []
      | Some cs \<Rightarrow>
          wrap li_el
            (collect
              [Inr [toggle_el p],
               if truthy (isOpen (item p))
               then render (TableOfContentsItems_el
                      \<lparr>currentPath = currentPath p, isTopLevel = Some False,
                       setMenuOpenStateById = setMenuOpenStateById p, rest = rest p,
                       className = None, items = cs\<rparr>)
               else Inr []]))"
  by (cases "children (item p)") (simp_all add: Menu_toggle_el)

lemma Menu_defaultProps_Some [simp]:
  "Menu_defaultProps \<lparr>currentPath = cp, isTopLevel = Some b, setMenuOpenStateById = cb,
     rest = r, item = it\<rparr> =
   \<lparr>currentPath = cp, isTopLevel = Some b, setMenuOpenStateById = cb, rest = r, item = it\<rparr>"
  by (simp add: Menu_defaultProps_def)

lemma render_entry_el_type:
  "type it = TMenu \<Longrightarrow>
     render (entry_el cp cb r is_top it) =
       render (Menu \<lparr>currentPath = cp, isTopLevel = Some is_top, setMenuOpenStateById = cb,
                      rest = r, item = it\<rparr>)"
  "type it = TLink \<Longrightarrow> render (entry_el cp cb r is_top it) = Inr [entry_el cp cb r is_top it]"
  "type it = TBulletLink \<Longrightarrow>
     render (entry_el cp cb r is_top it) = Inr [entry_el cp cb r is_top it]"
  "type it = TOther s \<Longrightarrow> render (entry_el cp cb r is_top it) = Inl InvalidElementType"
  by (simp_all add: entry_el_def render_component)

subsection \<open>The renderer against the reference\<close>

lemma render_entry_el:
  "render (entry_el cp cb r is_top it) =
     (if list_all (\<lambda>e. recognised (type e)) (shown it)
      then Inr (view cp cb r is_top it) else Inl InvalidElementType)"
proof (induction it arbitrary: is_top rule: Item_kids_induct)
  case (Item it)
  show ?case
  proof (cases "type it")
    case TMenu
    show ?thesis
    proof (cases "children it")
      case None
      with TMenu show ?thesis
        by (simp add: render_entry_el_type render_Menu shown_eq [of it] view.simps [of _ _ _ _ it])
    next
      case (Some cs)
      then have kids: "kids it = cs" by (simp add: kids_def)
      have sub: "collect (map (\<lambda>c. render (entry_el cp cb r False c)) cs) =
          (if list_all (\<lambda>c. list_all (\<lambda>e. recognised (type e)) (shown c)) cs
           then Inr (concat (map (view cp cb r False) cs)) else Inl InvalidElementType)"
        by (rule collect_map_if) (simp add: Item.IH kids)
      from TMenu Some kids show ?thesis
        by (simp add: render_entry_el_type render_Menu render_TableOfContentsItems_el sub
            shown_eq [of it]
            visible_def list_all_concat_map view.simps [of _ _ _ _ it]
           )
    qed
  next
    case TLink
    then show ?thesis
      by (simp add: render_entry_el_type shown_eq [of it] view.simps [of _ _ _ _ it])
  next
    case TBulletLink
    then show ?thesis
      by (simp add: render_entry_el_type shown_eq [of it] view.simps [of _ _ _ _ it])
  next
    case (TOther s)
    then show ?thesis by (simp add: render_entry_el_type shown_eq [of it])
  qed
qed

lemma render_view_list:
  "render (TableOfContentsItems_el p) =
     (if list_all (\<lambda>e. recognised (type e)) (visible (items p))
      then Inr [view_list p] else Inl InvalidElementType)"
proof -
  have "collect (map (\<lambda>it. render (entry_el (currentPath p) (setMenuOpenStateById p) (rest p)
                                  (truthy (isTopLevel p)) it)) (items p)) =
        (if list_all (\<lambda>it. list_all (\<lambda>e. recognised (type e)) (shown it)) (items p)
         then Inr (concat (map (view (currentPath p) (setMenuOpenStateById p) (rest p)
                 (truthy (isTopLevel p))) (items p)))
         else Inl InvalidElementType)"
    by (rule collect_map_if) (simp add: render_entry_el)
  then show ?thesis
    by (simp add: render_TableOfContentsItems_el view_list_def visible_def list_all_concat_map
       )
qed

lemma render_Inr_view_list:
  "render (TableOfContentsItems_el p) = Inr ds \<Longrightarrow> ds = [view_list p]"
  by (simp add: render_view_list split: if_splits)

lemma render_scenario:
  "render (TableOfContentsItems_el (scenario_props b)) = Inr [view_list (scenario_props b)]"
  by (simp add: render_view_list visible_scenario) (simp add: scenario_def)

subsection \<open>What a rendering contains\<close>

lemma handlers_toggle_el [simp]: "handlers (toggle_el p) = [toggleOpenState p]"
  by (simp add: toggle_el_def)

lemma entries_toggle_el [simp]: "entries (toggle_el p) = []"
  by (simp add: toggle_el_def)

lemma rendered_toggle_el [simp]: "rendered (toggle_el p)"
  by (simp add: toggle_el_def)

lemma rendered_entry_el [simp]:
  "rendered (entry_el cp cb r is_top it) \<longleftrightarrow> type it = TLink \<or> type it = TBulletLink"
  by (simp add: entry_el_def)

lemma entries_entry_el [simp]: "entries (entry_el cp cb r is_top it) = [it]"
  by (simp add: entry_el_def)

lemma handlers_entry_el [simp]: "handlers (entry_el cp cb r is_top it) = []"
  by (simp add: entry_el_def)

lemma rendered_view: "list_all rendered (view cp cb r is_top it)"
proof (induction it arbitrary: is_top rule: Item_kids_induct)
  case (Item it)
  then have "list_all (\<lambda>c. list_all rendered (view cp cb r False c)) (kids it)"
    by (simp add: list_all_iff)
  then show ?case
    by (cases "type it")
      (simp_all add: view.simps [of _ _ _ _ it] list_all_concat_map split: option.splits)
qed

lemma rendered_view_list [simp]: "rendered (view_list p)"
  by (simp add: view_list_def list_all_concat_map rendered_view list.pred_True)

abbreviation is_link :: "Item \<Rightarrow> bool" where
  "is_link it \<equiv> type it = TLink \<or> type it = TBulletLink"

abbreviation is_menu :: "Item \<Rightarrow> bool" where
  "is_menu it \<equiv> type it = TMenu"

definition menu_toggle :: "'cb option \<Rightarrow> Item \<Rightarrow> 'cb handler" where
  "menu_toggle cb it = Handler cb \<lparr>arg_id = item_id it, arg_isOpen = \<not> truthy (isOpen it)\<rparr>"

lemma toggleOpenState_menu_toggle:
  "toggleOpenState p = menu_toggle (setMenuOpenStateById p) (item p)"
  by (simp add: toggleOpenState_def menu_toggle_def)

lemma entries_view:
  "concat (map entries (view cp cb r is_top it)) = filter is_link (shown it)"
proof (induction it arbitrary: is_top rule: Item_kids_induct)
  case (Item it)
  then have sub: "concat (map entries (concat (map (view cp cb r False) (kids it)))) =
      filter is_link (visible (kids it))"
    by (simp add: visible_def concat_map_concat_map filter_concat_map cong: concat_map_cong_set)
  show ?case
    by (cases "type it")
      (simp_all add: view.simps [of _ _ _ _ it] shown_eq [of it] sub
        split: option.splits)
qed

lemma handlers_view:
  "concat (map handlers (view cp cb r is_top it)) =
     map (menu_toggle cb) (filter is_menu (shown it))"
proof (induction it arbitrary: is_top rule: Item_kids_induct)
  case (Item it)
  then have sub: "concat (map handlers (concat (map (view cp cb r False) (kids it)))) =
      map (menu_toggle cb) (filter is_menu (visible (kids it)))"
    by (simp add: visible_def concat_map_concat_map filter_concat_map map_concat_map
        cong: concat_map_cong_set)
  show ?case
    by (cases "type it")
      (simp_all add: view.simps [of _ _ _ _ it] shown_eq [of it] sub
        toggleOpenState_menu_toggle split: option.splits)
qed


subsection \<open>Properties of every rendering\<close>





subsection \<open>The rendering of a list of entries\<close>

lemma entries_views:
  "concat (map entries (concat (map (view cp cb r is_top) its))) = filter is_link (visible its)"
  by (induction its) (simp_all add: entries_view)

lemma handlers_views:
  "concat (map handlers (concat (map (view cp cb r is_top) its))) =
     map (menu_toggle cb) (filter is_menu (visible its))"
  by (induction its) (simp_all add: handlers_view)

lemma entries_view_list: "entries (view_list p) = filter is_link (visible (items p))"
  by (simp add: view_list_def entries_views)

lemma handlers_view_list:
  "handlers (view_list p) =
     map (menu_toggle (setMenuOpenStateById p)) (filter is_menu (visible (items p)))"
  by (simp add: view_list_def handlers_views)


text \<open>
  C1. Rendering a list of entries fails exactly when an entry that would be shown has a
  type outside the three recognised ones, and then with an invalid element type;
  otherwise it yields the one list element that the reference \<open>view_list\<close> describes
  by recursion over the entries.
\<close>

theorem render_eq_view:
  "render (TableOfContentsItems_el p) =
     (if list_all (\<lambda>e. recognised (type e)) (visible (items p))
      then Inr [view_list p] else Inl InvalidElementType)"
  by (rule render_view_list)

text \<open>
  C3. The click handlers in the rendering of a list are the toggles of the menus that
  are shown, one for each, in document order; each names the callback the list was
  given and carries the identifier of its menu and the negation of its open flag.
\<close>

theorem handlers_render:
  assumes "render (TableOfContentsItems_el p) = Inr ds"
  shows "concat (map handlers ds) =
     map (menu_toggle (setMenuOpenStateById p)) (filter is_menu (visible (items p)))"
  using assms by (auto dest!: render_Inr_view_list simp: handlers_view_list)

theorem handlers_render_witness:
  "render (TableOfContentsItems_el (scenario_props (Some True))) =
     Inr [view_list (scenario_props (Some True))] \<and>
   concat (map handlers [view_list (scenario_props (Some True))]) =
     [Handler (Some ()) \<lparr>arg_id = ''b'', arg_isOpen = False\<rparr>]"
  using handlers_render [OF render_scenario [of "Some True"]]
  by (simp add: render_scenario visible_scenario) (simp add: scenario_def menu_toggle_def)

text \<open>
  C14. What a click on each toggle of a rendered list does: without the callback
  prop every toggle is still rendered, and a click on any of them fails with the call
  of an absent function; with the callback, the click on the toggle of a shown menu
  calls it with the identifier of the menu and the negation of its open flag.
\<close>

theorem onClick_render:
  assumes "render (TableOfContentsItems_el p) = Inr ds"
  shows "map onClick (concat (map handlers ds)) =
     map (\<lambda>it. case setMenuOpenStateById p of
                 None \<Rightarrow> Inl NotAFunction
               | Some cb \<Rightarrow> Inr (cb, \<lparr>arg_id = item_id it, arg_isOpen = \<not> truthy (isOpen it)\<rparr>))
       (filter is_menu (visible (items p)))"
  using assms
  by (auto dest!: render_Inr_view_list
      simp: handlers_view_list onClick_def menu_toggle_def split: option.splits)

theorem onClick_render_witness:
  "render (TableOfContentsItems_el ((scenario_props (Some True))\<lparr>setMenuOpenStateById := None\<rparr>)) =
     Inr [view_list ((scenario_props (Some True))\<lparr>setMenuOpenStateById := None\<rparr>)] \<and>
   map onClick
     (handlers (view_list ((scenario_props (Some True))\<lparr>setMenuOpenStateById := None\<rparr>))) =
     [Inl NotAFunction]"
proof -
  let ?p = "(scenario_props (Some True))\<lparr>setMenuOpenStateById := None\<rparr>"
  have r: "render (TableOfContentsItems_el ?p) = Inr [view_list ?p]"
    by (simp add: render_view_list visible_scenario scenario_props_def) (simp add: scenario_def)
  from onClick_render [OF r] r show ?thesis
    by (simp add: visible_scenario scenario_props_def) (simp add: scenario_def)
qed

text \<open>
  C31. The link elements in the rendering of a list are those of the shown entries of
  type \<open>link\<close> or \<open>bullet-link\<close>, in document order: the children of a closed menu,
  and of a menu without \<open>children\<close>, are not rendered.
\<close>

theorem entries_render:
  assumes "render (TableOfContentsItems_el p) = Inr ds"
  shows "concat (map entries ds) = filter is_link (visible (items p))"
  using assms by (auto dest!: render_Inr_view_list simp: entries_view_list)

theorem entries_render_witness:
  "render (TableOfContentsItems_el (scenario_props (Some False))) =
     Inr [view_list (scenario_props (Some False))] \<and>
   concat (map entries [view_list (scenario_props (Some False))]) =
     [Item ''A'' TLink (Some ''/a'') None ''a'' None]"
  using entries_render [OF render_scenario [of "Some False"]]
  by (simp add: render_scenario visible_scenario) (simp add: scenario_def)

lemma render_wf_view_list:
  assumes "wf_items (items p)"
  shows "render (TableOfContentsItems_el p) = Inr [view_list p]"
proof -
  from assms have "list_all (\<lambda>e. recognised (type e)) (visible (items p))"
    by (auto simp: list_all_iff dest: wf_items_visible_recognised)
  then show ?thesis by (simp add: render_view_list)
qed

text \<open>
  C24. On a well-formed tree (recognised types, menus with children, distinct
  identifiers) rendering never fails.
\<close>

theorem render_wf_succeeds:
  assumes "wf_items (items p)"
  shows "render (TableOfContentsItems_el p) = Inr [view_list p]"
  using assms by (rule render_wf_view_list)

theorem render_wf_succeeds_witness:
  "wf_items (items (scenario_props None)) \<and>
   render (TableOfContentsItems_el (scenario_props None)) = Inr [view_list (scenario_props None)]"
  using render_wf_succeeds [of "scenario_props None"] by simp

text \<open>
  C6. The only failure of rendering is the invalid element type, and it occurs exactly
  when a shown entry has an unrecognised type: an unrecognised entry below a closed
  menu does no harm.
\<close>

theorem render_fails_iff:
  "render (TableOfContentsItems_el p) = Inl e \<longleftrightarrow>
     e = InvalidElementType \<and> (\<exists>it \<in> set (visible (items p)). \<not> recognised (type it))"
  by (auto simp: render_view_list list_all_iff)

theorem render_fails_iff_witness:
  "render (TableOfContentsItems_el
      \<lparr>currentPath = '''', isTopLevel = None, setMenuOpenStateById = None, rest = [],
       className = None,
       items = [Item ''M'' TMenu None
                  (Some [Item ''X'' (TOther ''card'') None None ''x'' None]) ''m'' (Some True)]\<rparr>)
     = Inl InvalidElementType"
  using render_fails_iff
    [of "\<lparr>currentPath = '''', isTopLevel = None, setMenuOpenStateById = None, rest = [],
       className = None,
       items = [Item ''M'' TMenu None
                  (Some [Item ''X'' (TOther ''card'') None None ''x'' None]) ''m'' (Some True)]\<rparr>"
      InvalidElementType]
  by simp

text \<open>
  C33. Each expansion of a component strictly decreases a measure of the element: what
  \<open>Menu\<close> returns weighs less than the element of the menu, and what
  \<open>TableOfContentsItems\<close> returns weighs less than the element of the list. So the
  mutual recursion of the two components through the renderer ends on every tree of
  entries.
\<close>

theorem component_calls_decrease:
  "weight (Menu (Menu_defaultProps p)) < weight (ItemComponent_el (Some MenuC) k p) \<and>
   weight (TableOfContentsItems (TableOfContentsItems_defaultProps q))
     < weight (TableOfContentsItems_el q)"
  using weight_Menu [of p] weight_TableOfContentsItems [of q] by simp

end
