(* ===== verification/Owner.thy ===== *)
theory Owner
  imports Render
begin

text \<open>
  The collaborator that owns the tree of entries and implements
  \<open>setMenuOpenStateById\<close>. Its source is not part of the repository; it is modelled from
  the specification: the open flags are a tree-shaped set of booleans indexed by
  identifier, owned by one controller, changed only by the callback, which sets the flag
  of the entry with the given identifier and leaves every other field and entry alone.
  (\<open>set_open\<close> and \<open>set_open_all\<close>.)

  With the owner the component becomes a state machine: the state is the tree, a step is
  a click on one of the toggles that the rendering of the current tree contains,
  followed by the owner's update; the next rendering is that of the new tree.
  (\<open>clicks\<close>, \<open>ui_step\<close>, \<open>reachable\<close>.)
\<close>

fun set_open :: "string \<Rightarrow> bool \<Rightarrow> Item \<Rightarrow> Item" where
  "set_open i b (Item t ty p ch j ob) =
     Item t ty p (map_option (map (set_open i b)) ch) j (if j = i then Some b else ob)"

definition set_open_all :: "SetMenuOpenStateByIdArgs \<Rightarrow> Item list \<Rightarrow> Item list" where
  "set_open_all a its = map (set_open (arg_id a) (arg_isOpen a)) its"

definition owner_props :: "string \<Rightarrow> Item list \<Rightarrow> unit TableOfContentsItemsProps" where
  "owner_props cp its =
     \<lparr>currentPath = cp, isTopLevel = Some True, setMenuOpenStateById = Some (),
      rest = [], className = None, items = its\<rparr>"

definition clicks :: "string \<Rightarrow> Item list \<Rightarrow> SetMenuOpenStateByIdArgs list" where
  "clicks cp its =
     (case render (TableOfContentsItems_el (owner_props cp its)) of
        Inl e \<Rightarrow> []
      | Inr ds \<Rightarrow>
          concat (map (\<lambda>h. case onClick h of Inl e \<Rightarrow> [] | Inr (cb, a) \<Rightarrow> [a])
                    (concat (map handlers ds))))"

inductive ui_step :: "string \<Rightarrow> Item list \<Rightarrow> Item list \<Rightarrow> bool" for cp :: string where
  click: "a \<in> set (clicks cp its) \<Longrightarrow> ui_step cp its (set_open_all a its)"

inductive reachable :: "string \<Rightarrow> Item list \<Rightarrow> Item list \<Rightarrow> bool"
  for cp :: string and s0 :: "Item list" where
  start: "reachable cp s0 s0"
| step: "reachable cp s0 s \<Longrightarrow> ui_step cp s t \<Longrightarrow> reachable cp s0 t"

inductive_cases ui_stepE: "ui_step cp s t"

definition successors :: "string \<Rightarrow> Item list \<Rightarrow> Item list list" where
  "successors cp s = map (\<lambda>a. set_open_all a s) (clicks cp s)"

text \<open>The tree without its open flags: what no click changes.\<close>

fun skeleton :: "Item \<Rightarrow> Item" where
  "skeleton (Item t ty p ch j ob) = Item t ty p (map_option (map skeleton) ch) j None"

definition open_ids :: "Item list \<Rightarrow> string set" where
  "open_ids its = item_id ` {it \<in> set (forest its). truthy (isOpen it)}"

subsection \<open>The owner's update\<close>

lemma set_open_sel [simp, toc_frame]:
  "title (set_open i b it) = title it"
  "type (set_open i b it) = type it"
  "path (set_open i b it) = path it"
  "item_id (set_open i b it) = item_id it"
  "children (set_open i b it) = map_option (map (set_open i b)) (children it)"
  "isOpen (set_open i b it) = (if item_id it = i then Some b else isOpen it)"
  by (cases it; simp; fail)+

lemma kids_set_open [simp]: "kids (set_open i b it) = map (set_open i b) (kids it)"
  by (cases it) (simp add: kids_def split: option.splits)

lemma nodes_set_open: "nodes (set_open i b it) = map (set_open i b) (nodes it)"
proof (induction it rule: Item_kids_induct)
  case (Item it)
  then have "concat (map (\<lambda>c. nodes (set_open i b c)) (kids it)) =
      concat (map (\<lambda>c. map (set_open i b) (nodes c)) (kids it))"
    by (simp cong: concat_map_cong_set)
  then show ?case
    by (simp add: nodes_eq [of "set_open i b it"] nodes_eq [of it] forest_def comp_def
        map_concat_map)
qed

lemma forest_set_open: "forest (map (set_open i b) its) = map (set_open i b) (forest its)"
  by (induction its) (simp_all add: nodes_set_open)

lemma ids_set_open [simp]: "ids (map (set_open i b) its) = ids its"
  by (simp add: ids_def forest_set_open comp_def)

lemma ids_set_open_all [simp]: "ids (set_open_all a its) = ids its"
  by (simp add: set_open_all_def)

lemma set_open_absent: "i \<notin> set (ids [it]) \<Longrightarrow> set_open i b it = it"
proof (induction it rule: Item_kids_induct)
  case (Item it)
  have "map (set_open i b) (kids it) = kids it"
  proof (rule map_idI)
    fix c assume c: "c \<in> set (kids it)"
    with Item.prems have "i \<notin> set (ids [c])"
      using nodes_in_forest [of c "kids it"] by (auto simp: ids_def nodes_eq [of it])
    with c show "set_open i b c = c" by (rule Item.IH)
  qed
  with Item.prems show ?case
    by (cases it) (auto simp: kids_def split: option.splits)
qed

lemma set_open_absent_list: "i \<notin> set (ids its) \<Longrightarrow> map (set_open i b) its = its"
  by (induction its) (simp_all add: set_open_absent map_idI)

lemma skeleton_set_open [simp]: "skeleton (set_open i b it) = skeleton it"
proof (induction it)
  case (Item t ty p ch j ob)
  then show ?case by (cases ch) (simp_all cong: map_cong)
qed

lemma skeleton_set_open_all [simp]: "map skeleton (set_open_all a its) = map skeleton its"
  by (simp add: set_open_all_def comp_def)

lemma wf_entry_set_open [simp]: "wf_entry (set_open i b it) = wf_entry it"
  by (simp add: wf_entry_def)

lemma wf_items_set_open_all [simp]: "wf_items (set_open_all a its) = wf_items its"
  by (simp add: wf_items_def set_open_all_def forest_set_open list_all_iff)

subsection \<open>The flags as a set of identifiers\<close>

lemma open_ids_image:
  "open_ids (map (set_open i b) its) =
     item_id ` {x \<in> set (forest its). if item_id x = i then b else truthy (isOpen x)}"
proof -
  have "{it \<in> set (forest (map (set_open i b) its)). truthy (isOpen it)} =
      set_open i b ` {x \<in> set (forest its). if item_id x = i then b else truthy (isOpen x)}"
    by (auto simp: forest_set_open)
  then show ?thesis by (simp add: open_ids_def image_image)
qed

lemma open_ids_opened:
  assumes "i \<in> set (ids its)"
  shows "open_ids (map (set_open i True) its) = insert i (open_ids its)"
proof -
  from assms obtain m where m: "m \<in> set (forest its)" "item_id m = i"
    by (auto simp: ids_def)
  show ?thesis
  proof (rule set_eqI)
    fix j
    show "j \<in> open_ids (map (set_open i True) its) \<longleftrightarrow> j \<in> insert i (open_ids its)"
    proof (cases "j = i")
      case True
      with m show ?thesis by (auto simp: open_ids_image)
    next
      case False
      then show ?thesis unfolding open_ids_image by (auto simp: open_ids_def)
    qed
  qed
qed

lemma open_ids_closed: "open_ids (map (set_open i False) its) = open_ids its - {i}"
  unfolding open_ids_image by (auto simp: open_ids_def)

lemma open_ids_subset: "open_ids its \<subseteq> set (ids its)"
  by (auto simp: open_ids_def ids_def)

lemma forest_entry_unique:
  assumes "distinct (ids s)" and "e \<in> set (forest s)" and "m \<in> set (forest s)"
    and "item_id e = item_id m"
  shows "e = m"
  using assms by (auto simp: ids_def distinct_map dest: inj_onD)

lemma open_ids_member:
  assumes "distinct (ids s)" and "m \<in> set (forest s)"
  shows "item_id m \<in> open_ids s \<longleftrightarrow> truthy (isOpen m)"
  using assms by (auto simp: open_ids_def dest: forest_entry_unique)

lemma open_ids_map_set_open:
  "open_ids (map (set_open i b) its) =
     (if i \<in> set (ids its)
      then (if b then insert i (open_ids its) else open_ids its - {i})
      else open_ids its)"
  using open_ids_subset [of its]
  by (cases b) (auto simp: open_ids_opened open_ids_closed set_open_absent_list)

subsection \<open>Clicks and steps\<close>

definition toggle_args :: "Item \<Rightarrow> SetMenuOpenStateByIdArgs" where
  "toggle_args m = \<lparr>arg_id = item_id m, arg_isOpen = \<not> truthy (isOpen m)\<rparr>"

lemma onClick_menu_toggle: "onClick (menu_toggle (Some cb) m) = Inr (cb, toggle_args m)"
  by (simp add: onClick_def menu_toggle_def toggle_args_def)

lemma clicks_eq:
  "clicks cp its =
     (if list_all (\<lambda>e. recognised (type e)) (visible its)
      then map toggle_args (filter is_menu (visible its)) else [])"
proof -
  have "concat (map (\<lambda>h. case onClick h of Inl e \<Rightarrow> [] | Inr (cb, a) \<Rightarrow> [a])
          (map (menu_toggle (Some ())) ms)) = map toggle_args ms" for ms
    by (induction ms) (simp_all add: onClick_menu_toggle)
  then show ?thesis
    by (simp add: clicks_def render_view_list handlers_view_list owner_props_def)
qed

lemma ui_step_iff: "ui_step cp s t \<longleftrightarrow> (\<exists>a \<in> set (clicks cp s). t = set_open_all a s)"
  by (auto elim: ui_stepE intro: ui_step.click)

lemma ui_step_frame:
  assumes "ui_step cp s t"
  shows "map skeleton t = map skeleton s" and "ids t = ids s" and "wf_items t = wf_items s"
  using assms by (auto simp: ui_step_iff)

lemma reachable_frame:
  assumes "reachable cp s0 s"
  shows "map skeleton s = map skeleton s0 \<and> ids s = ids s0 \<and> wf_items s = wf_items s0"
  using assms
proof (induction rule: reachable.induct)
  case start
  show ?case by simp
next
  case (step s t)
  with ui_step_frame [OF step.hyps(2)] show ?case by simp
qed

subsection \<open>What a click changes in the rendering\<close>

definition vis_ids :: "Item list \<Rightarrow> string list" where
  "vis_ids its = map item_id (visible its)"

definition below :: "bool \<Rightarrow> Item \<Rightarrow> string list" where
  "below b m = (if b then vis_ids (kids m) else [])"

lemma vis_ids_simps [simp]:
  "vis_ids [] = []"
  "vis_ids (it # its) = map item_id (shown it) @ vis_ids its"
  by (simp_all add: vis_ids_def)

lemma shown_menu:
  "type it = TMenu \<Longrightarrow> children it \<noteq> None \<Longrightarrow>
     map item_id (shown it) = item_id it # below (truthy (isOpen it)) it"
  by (simp add: shown_eq [of it] below_def vis_ids_def)

lemma shown_set_open_other:
  "item_id it \<noteq> i \<Longrightarrow>
     map item_id (shown (set_open i b it)) =
       (if type it = TMenu
        then (if children it = None then []
              else item_id it #
                (if truthy (isOpen it) then vis_ids (map (set_open i b) (kids it)) else []))
        else [item_id it])"
  by (simp add: shown_eq [of "set_open i b it"] vis_ids_def)

lemma shown_set_open_self:
  "type it = TMenu \<Longrightarrow> children it \<noteq> None \<Longrightarrow> item_id it \<notin> set (ids (kids it)) \<Longrightarrow>
     map item_id (shown (set_open (item_id it) b it)) = item_id it # below b it"
  by (simp add: shown_eq [of "set_open (item_id it) b it"] below_def vis_ids_def
      set_open_absent_list)

lemma below_set_open:
  "i \<notin> set (ids (kids it)) \<Longrightarrow> below b (set_open i b' it) = below b it"
  by (simp add: below_def set_open_absent_list)

lemma shown_cases:
  assumes "m \<in> set (shown it)"
  shows "m = it \<or> (type it = TMenu \<and> children it \<noteq> None \<and> truthy (isOpen it) \<and>
           m \<in> set (visible (kids it)))"
  using assms by (auto simp: shown_eq [of it] split: if_splits)

lemma shown_self_menu:
  "it \<in> set (shown it) \<Longrightarrow> type it = TMenu \<Longrightarrow> children it \<noteq> None"
  using visible_subset_forest [of "kids it"] size_kids
  by (auto simp: shown_eq [of it] split: if_splits)

text \<open>
  \<open>toggled_at m b s\<close>: setting the flag of the menu \<open>m\<close> to \<open>b\<close> in the tree \<open>s\<close> replaces
  the shown descendants of \<open>m\<close> and leaves the shown entries before and after them alone.
\<close>

definition toggled_at :: "Item \<Rightarrow> bool \<Rightarrow> Item list \<Rightarrow> bool" where
  "toggled_at m b s \<longleftrightarrow>
     (\<exists>xs ys. vis_ids s = xs @ item_id m # below (truthy (isOpen m)) m @ ys \<and>
        vis_ids (map (set_open (item_id m) b) s) = xs @ item_id m # below b m @ ys)"

lemma toggled_atI:
  "vis_ids s = xs @ item_id m # below (truthy (isOpen m)) m @ ys \<Longrightarrow>
   vis_ids (map (set_open (item_id m) b) s) = xs @ item_id m # below b m @ ys \<Longrightarrow>
   toggled_at m b s"
  unfolding toggled_at_def by blast

lemma toggled_at_self:
  assumes "type m = TMenu" and "children m \<noteq> None"
    and "item_id m \<notin> set (ids (kids m))" and "item_id m \<notin> set (ids its)"
  shows "toggled_at m b (m # its)"
proof (rule toggled_atI [where xs = "[]" and ys = "vis_ids its"])
  from assms show "vis_ids (m # its) = [] @ item_id m # below (truthy (isOpen m)) m @ vis_ids its"
    by (simp add: shown_menu below_def)
  from assms show "vis_ids (map (set_open (item_id m) b) (m # its)) =
      [] @ item_id m # below b m @ vis_ids its"
    by (simp add: shown_set_open_self below_set_open set_open_absent_list)
qed

lemma toggled_at_kid:
  assumes "toggled_at m b (kids it)"
    and "type it = TMenu" and "children it \<noteq> None" and "truthy (isOpen it)"
    and "item_id it \<noteq> item_id m" and "item_id m \<notin> set (ids its)"
  shows "toggled_at m b (it # its)"
proof -
  from assms(1) obtain xs ys where
    "vis_ids (kids it) = xs @ item_id m # below (truthy (isOpen m)) m @ ys"
    "vis_ids (map (set_open (item_id m) b) (kids it)) = xs @ item_id m # below b m @ ys"
    unfolding toggled_at_def by blast
  with assms(2-) show ?thesis
    by (intro toggled_atI [where xs = "item_id it # xs" and ys = "ys @ vis_ids its"])
      (simp_all add: shown_menu shown_set_open_other set_open_absent_list below_def)
qed

lemma toggled_at_rest:
  assumes "toggled_at m b its" and "item_id m \<notin> set (ids [it])"
  shows "toggled_at m b (it # its)"
proof -
  from assms(1) obtain xs ys where
    "vis_ids its = xs @ item_id m # below (truthy (isOpen m)) m @ ys"
    "vis_ids (map (set_open (item_id m) b) its) = xs @ item_id m # below b m @ ys"
    unfolding toggled_at_def by blast
  with assms(2) show ?thesis
    by (intro toggled_atI [where xs = "map item_id (shown it) @ xs" and ys = ys])
      (simp_all add: set_open_absent)
qed

lemma toggled_at_visible:
  assumes "distinct (ids s)" and "m \<in> set (visible s)" and "type m = TMenu"
  shows "toggled_at m b s"
  using assms(1,2)
proof (induction s rule: forest_induct)
  case Nil
  then show ?case by simp
next
  case (Cons it its)
  from Cons.prems(1) have d: "item_id it \<notin> set (ids (kids it))" "item_id it \<notin> set (ids its)"
    "distinct (ids (kids it))" "distinct (ids its)" "set (ids (kids it)) \<inter> set (ids its) = {}"
    by auto
  from Cons.prems(2) consider
    (self) "m = it" |
    (kid) "m \<noteq> it" "type it = TMenu" "children it \<noteq> None" "truthy (isOpen it)"
          "m \<in> set (visible (kids it))" |
    (rest) "m \<notin> set (shown it)" "m \<in> set (visible its)"
    by (auto dest: shown_cases)
  then show ?case
  proof cases
    case self
    with Cons.prems(2) d(2) have "it \<in> set (shown it)"
      by (auto dest: visible_ids)
    with assms(3) self have "children it \<noteq> None" by (auto dest: shown_self_menu)
    with self assms(3) d(1,2) show ?thesis by (simp add: toggled_at_self)
  next
    case kid
    from kid(5) have "item_id m \<in> set (ids (kids it))" by (rule visible_ids)
    with d have "item_id it \<noteq> item_id m" "item_id m \<notin> set (ids its)" by auto
    with Cons.IH(1) [OF d(3) kid(5)] kid(2-4) show ?thesis by (rule toggled_at_kid)
  next
    case rest
    from rest(2) have "item_id m \<in> set (ids its)" by (rule visible_ids)
    with d have "item_id m \<notin> set (ids [it])" by auto
    with Cons.IH(2) [OF d(4) rest(2)] show ?thesis by (rule toggled_at_rest)
  qed
qed

lemmas vis_ids_toggled = toggled_at_visible [unfolded toggled_at_def]

subsection \<open>Properties of the state machine\<close>

lemma ui_step_successors: "ui_step cp s t \<longleftrightarrow> t \<in> set (successors cp s)"
  by (auto simp: ui_step_iff successors_def)

lemma clicks_scenario [simp]:
  "clicks cp (scenario b) = [\<lparr>arg_id = ''b'', arg_isOpen = \<not> truthy b\<rparr>]"
  by (simp add: clicks_eq visible_scenario) (simp add: scenario_def toggle_args_def)

lemma set_open_all_scenario [simp]:
  "set_open_all \<lparr>arg_id = ''b'', arg_isOpen = b'\<rparr> (scenario b) = scenario (Some b')"
  by (simp add: set_open_all_def scenario_def)

lemma ui_step_scenario: "ui_step cp (scenario b) (scenario (Some (\<not> truthy b)))"
  by (simp add: ui_step_iff)

lemma ids_scenario [simp]: "ids (scenario b) = [''a'', ''b'', ''c'']"
  by (simp add: scenario_def)

text \<open>
  C2. A click on a toggle of the current rendering, followed by the owner's update,
  changes the shown entries below the clicked menu and nowhere else: its shown
  descendants appear if the menu was closed and disappear if it was open, and every
  other shown entry keeps its place. (Identifiers are assumed distinct.)
\<close>

theorem click_toggles_children:
  assumes "distinct (ids s)"
    and "render (TableOfContentsItems_el (owner_props cp s)) = Inr ds"
    and "h \<in> set (concat (map handlers ds))"
    and "onClick h = Inr (cb, a)"
  shows "\<exists>m xs ys. m \<in> set (visible s) \<and> type m = TMenu \<and> arg_id a = item_id m \<and>
     vis_ids s = xs @ item_id m # below (truthy (isOpen m)) m @ ys \<and>
     vis_ids (set_open_all a s) = xs @ item_id m # below (\<not> truthy (isOpen m)) m @ ys"
proof -
  from assms(2) have ds: "ds = [view_list (owner_props cp s)]"
    by (rule render_Inr_view_list)
  with assms(3) obtain m where m: "m \<in> set (visible s)" "type m = TMenu"
    and h: "h = menu_toggle (Some ()) m"
    by (auto simp: handlers_view_list owner_props_def)
  from h assms(4) have a: "a = toggle_args m" by (simp add: onClick_menu_toggle)
  from vis_ids_toggled [OF assms(1) m, of "\<not> truthy (isOpen m)"] a m show ?thesis
    by (auto simp: set_open_all_def toggle_args_def)
qed

theorem click_toggles_children_witness:
  "\<exists>m xs ys. m \<in> set (visible (scenario (Some False))) \<and> type m = TMenu \<and> ''b'' = item_id m \<and>
     vis_ids (scenario (Some False)) = xs @ item_id m # below (truthy (isOpen m)) m @ ys \<and>
     vis_ids (scenario (Some True)) = xs @ item_id m # below (\<not> truthy (isOpen m)) m @ ys"
  using click_toggles_children [of "scenario (Some False)" "''/a''"
      "[view_list (owner_props ''/a'' (scenario (Some False)))]"
      "menu_toggle (Some ()) (scenario (Some False) ! 1)" "()"
      "\<lparr>arg_id = ''b'', arg_isOpen = True\<rparr>"]
  by (simp add: render_wf_view_list handlers_view_list owner_props_def visible_scenario
      onClick_menu_toggle toggle_args_def)
    (simp add: scenario_def)



text \<open>
  C8. Started on a well-formed tree, the component never fails to render, whatever the
  user clicks.
\<close>

theorem reachable_renders:
  assumes "wf_items s0" and "reachable cp s0 s"
  shows "render (TableOfContentsItems_el (owner_props cp s)) = Inr [view_list (owner_props cp s)]"
proof -
  from assms have "wf_items s" by (simp add: reachable_frame)
  then show ?thesis by (simp add: render_wf_view_list owner_props_def)
qed

theorem reachable_renders_witness:
  "wf_items (scenario None) \<and> reachable ''/a'' (scenario None) (scenario (Some True)) \<and>
   render (TableOfContentsItems_el (owner_props ''/a'' (scenario (Some True)))) =
     Inr [view_list (owner_props ''/a'' (scenario (Some True)))]"
proof -
  have r: "reachable ''/a'' (scenario None) (scenario (Some True))"
    using reachable.step [OF reachable.start ui_step_scenario [of "''/a''" None]] by simp
  with reachable_renders [OF _ r] show ?thesis by simp
qed

text \<open>
  C9. The open flags behave as the set of identifiers of open entries that the
  specification describes: a step adds the identifier of the clicked menu to the set if
  the menu was closed, removes it if the menu was open, and changes no other member.
\<close>

theorem ui_step_open_ids:
  assumes "ui_step cp s t"
  shows "\<exists>m \<in> set (visible s). type m = TMenu \<and>
     open_ids t = (if truthy (isOpen m) then open_ids s - {item_id m}
                   else insert (item_id m) (open_ids s))"
proof -
  from assms obtain m where m: "m \<in> set (visible s)" "type m = TMenu"
    and t: "t = set_open_all (toggle_args m) s"
    by (auto simp: ui_step_iff clicks_eq split: if_splits)
  from m(1) have "item_id m \<in> set (ids s)" by (rule visible_ids)
  with t have "open_ids t = (if truthy (isOpen m) then open_ids s - {item_id m}
                   else insert (item_id m) (open_ids s))"
    by (simp add: set_open_all_def toggle_args_def open_ids_map_set_open)
  with m show ?thesis by blast
qed

theorem ui_step_open_ids_witness:
  "ui_step ''/a'' (scenario None) (scenario (Some True)) \<and>
   open_ids (scenario (Some True)) = insert ''b'' (open_ids (scenario None))"
  using ui_step_open_ids [OF ui_step_scenario [of "''/a''" None]]
  by (simp add: visible_scenario ui_step_iff) (simp add: scenario_def)

text \<open>
  C34. The component can take a step exactly when its rendering succeeds and shows a
  menu: every shown menu with children has a toggle, and nothing else can be clicked.
\<close>

theorem ui_step_enabled:
  "(\<exists>t. ui_step cp s t) \<longleftrightarrow>
     list_all (\<lambda>e. recognised (type e)) (visible s) \<and> (\<exists>m \<in> set (visible s). type m = TMenu)"
  by (auto simp: ui_step_iff clicks_eq)

theorem ui_step_enabled_witness:
  "(\<exists>t. ui_step ''/a'' (scenario None) t) \<and> \<not> (\<exists>t. ui_step ''/a'' [] t)"
  using ui_step_enabled [of "''/a''" "scenario None"] ui_step_enabled [of "''/a''" "[]"]
  by (simp add: visible_scenario) (simp add: scenario_def)

end
