(* ===== verification/Styles.thy ===== *)
theory Styles
  imports Render
begin

text \<open>
  The three styled components of \<^verbatim>\<open>TableOfContentsItems.tsx\<close>: \<open>TopLevelMenuToggle\<close>
  (lines 43 to 60), \<open>ArrowIcon\<close> (lines 62 to 76) and \<open>List\<close> (lines 122 to 161). A
  styled component is a template of CSS with holes that are functions of the props; the
  model is the function from the props to the style sheet, as a tree of declarations and
  nested rules in the order of the template. A hole that evaluates to \<open>false\<close> or
  \<open>undefined\<close> contributes nothing, as in the library. The two design tokens the
  templates read from \<^verbatim>\<open>../shared/styles\<close> are parameters (\<open>tokens\<close>).

  \<open>value_of\<close> reads a property in a rule body the way CSS does (the last declaration
  wins); \<open>style_of\<close> gives the style sheet of an element of a rendering.
\<close>

datatype css = Decl string string | Rule string "css list"

record tokens =
  typography_weight_bold :: string
  color_mediumdark :: string

definition TopLevelMenuToggle_attrs :: "(string \<times> bool) list" where
  "TopLevelMenuToggle_attrs = [(''isButton'', True), (''tertiary'', True)]"

definition TopLevelMenuToggle_css :: "tokens \<Rightarrow> css list" where
  "TopLevelMenuToggle_css tk =
     [Decl ''font-weight'' (typography_weight_bold tk),
      Decl ''line-height'' ''24px'',
      Decl ''word-break'' ''break-word'',
      Decl ''text-align'' ''left'',
      Rule ''> span''
        [Decl ''display'' ''flex'',
         Rule ''svg'' [Decl ''flex'' ''none''],
         Rule ''span'' [Decl ''flex'' ''1'']]]"

definition ArrowIcon_attrs :: "(string \<times> string) list" where
  "ArrowIcon_attrs = [(''icon'', ''arrowright'')]"

definition ArrowIcon_css :: "tokens \<Rightarrow> bool option \<Rightarrow> bool option \<Rightarrow> css list" where
  "ArrowIcon_css tk isOpen' isTopLevel' =
     [Rule ''&&''
        ([Decl ''width'' ''12px'',
          Decl ''height'' ''12px'',
          Decl ''color'' (color_mediumdark tk),
          Decl ''transform''
            (''translateY(1px) '' @ (if truthy isOpen' then ''rotate(90deg)'' else ''''))]
         @ (if truthy isTopLevel' then [Decl ''margin-right'' ''8px'']
            else [Decl ''margin-left'' ''8px''])
         @ [Decl ''bottom'' ''-0.25em''])]"

definition List_css :: "bool option \<Rightarrow> css list" where
  "List_css isTopLevel' =
     [Decl ''list-style-type'' ''none'',
      Decl ''padding'' ''0'',
      Decl ''margin'' ''0'',
      Rule ''li''
        [Decl ''padding-top'' ''12px'',
         Rule ''&:first-child'' [Decl ''padding-top'' ''0'']]]
     @ (if truthy isTopLevel'
        then [Rule ''> li''
                [Decl ''padding-top'' ''24px'',
                 Rule ''ul, ol''
                   [Decl ''padding-top'' ''12px'',
                    Decl ''display'' ''flex'',
                    Decl ''flex-direction'' ''column''],
                 Rule ''> ul''
                   [Decl ''padding-left'' ''35px'',
                    Rule ''> li ul'' [Decl ''padding-left'' ''15px'']],
                 Rule ''> ol'' [Decl ''padding-left'' ''20px'']]]
        else [])"

fun style_of :: "tokens \<Rightarrow> 'cb node \<Rightarrow> css list" where
  "style_of tk (ArrowIcon_el o1 o2) = ArrowIcon_css tk o1 o2"
| "style_of tk (TopLevelMenuToggle_el h ns) = TopLevelMenuToggle_css tk"
| "style_of tk (List_el c t a ns) = List_css (Some t)"
| "style_of tk _ = []"

subsection \<open>Reading a style sheet\<close>

fun value_of :: "string \<Rightarrow> css list \<Rightarrow> string option" where
  "value_of pr [] = None"
| "value_of pr (Decl q v # cs) =
     (case value_of pr cs of Some w \<Rightarrow> Some w | None \<Rightarrow> if q = pr then Some v else None)"
| "value_of pr (Rule sel body # cs) = value_of pr cs"

fun rule_of :: "string \<Rightarrow> css list \<Rightarrow> css list option" where
  "rule_of sel [] = None"
| "rule_of sel (Decl q v # cs) = rule_of sel cs"
| "rule_of sel (Rule sel' body # cs) = (if sel' = sel then Some body else rule_of sel cs)"

definition at_rule :: "string \<Rightarrow> css list \<Rightarrow> css list" where
  "at_rule sel cs = (case rule_of sel cs of None \<Rightarrow> [] | Some body \<Rightarrow> body)"

definition rotated :: "css list \<Rightarrow> bool" where
  "rotated cs \<longleftrightarrow>
     (case value_of ''transform'' (at_rule ''&&'' cs) of
        None \<Rightarrow> False
      | Some v \<Rightarrow> v = ''translateY(1px) rotate(90deg)'')"

fun arrow_of :: "'cb node \<Rightarrow> 'cb node list" where
  "arrow_of (ArrowIcon_el o1 o2) = [ArrowIcon_el o1 o2]"
| "arrow_of _ = []"

definition arrows :: "'cb node \<Rightarrow> 'cb node list" where
  "arrows = gather arrow_of"

subsection \<open>The arrow\<close>

lemma value_of_append:
  "value_of pr (cs @ ds) = (case value_of pr ds of Some w \<Rightarrow> Some w | None \<Rightarrow> value_of pr cs)"
  by (induction cs rule: value_of.induct) (simp_all split: option.splits)

lemma at_rule_ArrowIcon:
  "at_rule ''&&'' (ArrowIcon_css tk o1 o2) =
     [Decl ''width'' ''12px'', Decl ''height'' ''12px'', Decl ''color'' (color_mediumdark tk),
      Decl ''transform'' (''translateY(1px) '' @ (if truthy o1 then ''rotate(90deg)'' else ''''))]
     @ (if truthy o2 then [Decl ''margin-right'' ''8px''] else [Decl ''margin-left'' ''8px''])
     @ [Decl ''bottom'' ''-0.25em'']"
  by (simp add: at_rule_def ArrowIcon_css_def)

lemma rotated_ArrowIcon_css: "rotated (ArrowIcon_css tk o1 o2) \<longleftrightarrow> truthy o1"
  by (simp add: rotated_def at_rule_ArrowIcon)

text \<open>
  C40. The arrow of a menu is rotated by a quarter turn exactly when the flag it is given
  is \<open>true\<close>, an absent flag leaving it unrotated; and it has a margin on exactly one
  side: on the right in a top-level toggle, where it stands before the title, and on the
  left otherwise.
\<close>

theorem ArrowIcon_by_flags:
  "value_of ''transform'' (at_rule ''&&'' (ArrowIcon_css tk o1 o2)) =
     Some (if truthy o1 then ''translateY(1px) rotate(90deg)'' else ''translateY(1px) '') \<and>
   value_of ''margin-right'' (at_rule ''&&'' (ArrowIcon_css tk o1 o2)) =
     (if truthy o2 then Some ''8px'' else None) \<and>
   value_of ''margin-left'' (at_rule ''&&'' (ArrowIcon_css tk o1 o2)) =
     (if truthy o2 then None else Some ''8px'')"
  by (simp add: at_rule_ArrowIcon)

subsection \<open>The list\<close>

text \<open>
  The list carries the block of rules for its direct items exactly when it is
  top-level; the base declarations are the same in both cases, so a nested list differs
  from a top-level one only by that block.
\<close>

lemma List_css_top_level:
  "(rule_of ''> li'' (List_css t) \<noteq> None \<longleftrightarrow> truthy t) \<and>
   List_css t = List_css None @ (if truthy t then [Rule ''> li'' (at_rule ''> li'' (List_css t))] else [])"
  by (simp add: List_css_def at_rule_def)

lemma indent_top_level:
  "value_of ''padding-left'' (at_rule ''> ul'' (at_rule ''> li'' (List_css (Some True)))) = Some ''35px''"
  "value_of ''padding-left'' (at_rule ''> ol'' (at_rule ''> li'' (List_css (Some True)))) = Some ''20px''"
  by (simp_all add: List_css_def at_rule_def)

subsection \<open>Arrows in a rendering\<close>

lemma arrows_simps [simp]:
  "arrows (ItemComponent_el c k p) = []"
  "arrows (TableOfContentsItems_el q) = []"
  "arrows (List_el cn t a ns) = concat (map arrows ns)"
  "arrows (li_el ns) = concat (map arrows ns)"
  "arrows (TopLevelMenuToggle_el h ns) = concat (map arrows ns)"
  "arrows (MenuLink_el h ns) = concat (map arrows ns)"
  "arrows (span_el ns) = concat (map arrows ns)"
  "arrows (ArrowIcon_el o1 o2) = [ArrowIcon_el o1 o2]"
  "arrows (Text s) = []"
  "arrows Nothing = []"
  by (simp_all add: arrows_def gather_def gather_children)

lemma arrows_toggle_el [simp]:
  "arrows (toggle_el p) = [ArrowIcon_el (isOpen (item p)) (isTopLevel p)]"
  by (simp add: toggle_el_def)

lemma arrows_entry_el [simp]: "arrows (entry_el cp cb r is_top it) = []"
  by (simp add: entry_el_def)

lemma arrows_view:
  "map (\<lambda>n. rotated (style_of tk n)) (concat (map arrows (view cp cb r is_top it))) =
     map (\<lambda>m. truthy (isOpen m)) (filter is_menu (shown it))"
proof (induction it arbitrary: is_top rule: Item_kids_induct)
  case (Item it)
  then have sub:
    "map (\<lambda>n. rotated (style_of tk n))
       (concat (map arrows (concat (map (view cp cb r False) (kids it))))) =
     map (\<lambda>m. truthy (isOpen m)) (filter is_menu (visible (kids it)))"
    by (simp add: visible_def concat_map_concat_map filter_concat_map map_concat_map
        cong: concat_map_cong_set)
  show ?case
    by (cases "type it")
      (simp_all add: view.simps [of _ _ _ _ it] shown_eq [of it] sub rotated_ArrowIcon_css
        split: option.splits)
qed

lemma arrows_views:
  "map (\<lambda>n. rotated (style_of tk n)) (concat (map arrows (concat (map (view cp cb r is_top) its)))) =
     map (\<lambda>m. truthy (isOpen m)) (filter is_menu (visible its))"
  by (induction its) (simp_all add: arrows_view)

lemma arrows_view_list:
  "map (\<lambda>n. rotated (style_of tk n)) (arrows (view_list p)) =
     map (\<lambda>m. truthy (isOpen m)) (filter is_menu (visible (items p)))"
  by (simp add: view_list_def arrows_views)

text \<open>
  C25. In a rendering, every shown menu has one arrow, in document order, and the arrow
  is rotated exactly when its menu is open: the flag \<open>Menu\<close> passes to \<open>ArrowIcon\<close> and
  the style \<open>ArrowIcon\<close> computes from it agree with the state of the tree.
\<close>

theorem arrows_render:
  assumes "render (TableOfContentsItems_el p) = Inr ds"
  shows "map (\<lambda>n. rotated (style_of tk n)) (concat (map arrows ds)) =
     map (\<lambda>m. truthy (isOpen m)) (filter is_menu (visible (items p)))"
  using assms by (auto dest!: render_Inr_view_list simp: arrows_view_list)

theorem arrows_render_witness:
  "render (TableOfContentsItems_el (scenario_props (Some True))) =
     Inr [view_list (scenario_props (Some True))] \<and>
   map (\<lambda>n. rotated (style_of \<lparr>typography_weight_bold = ''800'', color_mediumdark = ''#666666''\<rparr> n))
     (concat (map arrows [view_list (scenario_props (Some True))])) = [True]"
  using arrows_render [OF render_scenario [of "Some True"],
      of "\<lparr>typography_weight_bold = ''800'', color_mediumdark = ''#666666''\<rparr>"]
  by (simp add: render_scenario visible_scenario) (simp add: scenario_def)

end
