(* ===== verification/Markup.thy ===== *)
theory Markup
  imports Render
begin

text \<open>
  The shape of a rendering. \<open>wf_markup\<close> is the type of the element trees the two
  components produce once every component is expanded: a list whose rows are link
  elements or list items, a list item holding one toggle and, exactly when the toggle's
  arrow is open, one nested list that is not top-level. The flag \<open>is_top\<close> says which of
  the two toggles the rows of a list use.
\<close>

fun wf_toggle :: "bool \<Rightarrow> bool \<Rightarrow> 'cb node \<Rightarrow> bool" where
  "wf_toggle is_top opn (TopLevelMenuToggle_el h [ArrowIcon_el o1 o2, span_el [Text t]]) =
     (is_top \<and> truthy o2 \<and> truthy o1 = opn \<and> arg_isOpen (payload h) = (\<not> opn))"
| "wf_toggle is_top opn (MenuLink_el h [Text t, ArrowIcon_el o1 o2]) =
     (\<not> is_top \<and> \<not> truthy o2 \<and> truthy o1 = opn \<and> arg_isOpen (payload h) = (\<not> opn))"
| "wf_toggle is_top opn _ = False"

fun bullet_row :: "'cb node \<Rightarrow> bool" where
  "bullet_row (ItemComponent_el c k p) = (c = Some BulletLinkC)"
| "bullet_row _ = False"

fun wf_row :: "bool \<Rightarrow> 'cb node \<Rightarrow> bool" where
  "wf_row is_top (ItemComponent_el c k p) =
     ((c = Some ItemLinkC \<or> c = Some BulletLinkC) \<and> c = getItemComponent (type (item p)) \<and>
      k = title (item p) \<and> isTopLevel p = Some is_top)"
| "wf_row is_top (li_el [t]) = wf_toggle is_top False t"
| "wf_row is_top (li_el [t, List_el c nt a ns]) =
     (wf_toggle is_top True t \<and> c = Some '''' \<and> \<not> nt \<and>
      list_all (wf_row False) ns \<and> (a = ul \<or> list_all bullet_row ns))"
| "wf_row is_top _ = False"

fun wf_markup :: "bool \<Rightarrow> 'cb node \<Rightarrow> bool" where
  "wf_markup is_top (List_el c t a ns) =
     (t = is_top \<and> list_all (wf_row is_top) ns \<and> (a = ul \<or> list_all bullet_row ns))"
| "wf_markup is_top _ = False"

text \<open>The keys of the children of an element, as React sees them.\<close>

fun key_of :: "'cb node \<Rightarrow> string list" where
  "key_of (ItemComponent_el c k p) = [k]"
| "key_of _ = []"

definition child_keys :: "'cb node \<Rightarrow> string list" where
  "child_keys n = concat (map key_of (child_nodes n))"

text \<open>The props of the link elements of a tree, in document order.\<close>

fun props_of :: "'cb node \<Rightarrow> 'cb MenuProps list" where
  "props_of (ItemComponent_el c k p) = [p]"
| "props_of _ = []"

definition link_props :: "'cb node \<Rightarrow> 'cb MenuProps list" where
  "link_props = gather props_of"

subsection \<open>Rows\<close>

lemma wf_toggle_toggle_el [simp]:
  "wf_toggle is_top opn
     (toggle_el \<lparr>currentPath = cp, isTopLevel = Some is_top, setMenuOpenStateById = cb,
                 rest = r, item = it\<rparr>) \<longleftrightarrow> truthy (isOpen it) = opn"
  by (auto simp: toggle_el_def toggleOpenState_def)

lemma wf_row_entry_el [simp]:
  "wf_row is_top (entry_el cp cb r is_top' it) \<longleftrightarrow>
     (type it = TLink \<or> type it = TBulletLink) \<and> is_top' = is_top"
  by (cases "type it") (auto simp: entry_el_def)

lemma bullet_row_entry_el [simp]:
  "bullet_row (entry_el cp cb r is_top it) \<longleftrightarrow> type it = TBulletLink"
  by (simp add: entry_el_def)

lemma bullet_rows_view:
  "type it = TBulletLink \<Longrightarrow> list_all bullet_row (view cp cb r is_top it)"
  by (simp add: view.simps [of _ _ _ _ it])

lemma bullet_rows_views:
  "list_all (\<lambda>c. type c = TBulletLink) its \<Longrightarrow>
   list_all bullet_row (concat (map (view cp cb r is_top) its))"
  by (induction its) (simp_all add: bullet_rows_view)

lemma wf_row_view: "list_all (wf_row is_top) (view cp cb r is_top it)"
proof (induction it arbitrary: is_top rule: Item_kids_induct)
  case (Item it)
  then have sub: "list_all (wf_row False) (concat (map (view cp cb r False) (kids it)))"
    by (simp add: list_all_concat_map list_all_iff)
  show ?case
  proof (cases "type it")
    case TMenu
    with sub show ?thesis
      by (auto simp: view.simps [of _ _ _ _ it] kids_def bullet_rows_views
          split: option.splits)
  qed (simp_all add: view.simps [of _ _ _ _ it])
qed

lemma wf_markup_view_list [simp]: "wf_markup (truthy (isTopLevel p)) (view_list p)"
  using bullet_rows_views [of "items p" "currentPath p" "setMenuOpenStateById p" "rest p"
      "truthy (isTopLevel p)"]
  by (simp add: view_list_def list_all_concat_map wf_row_view list.pred_True)

subsection \<open>Keys\<close>

lemma child_keys_simps [simp]:
  "child_keys (List_el c t a ns) = concat (map key_of ns)"
  by (simp add: child_keys_def)

lemma key_of_entry_el [simp]: "key_of (entry_el cp cb r is_top it) = [title it]"
  by (simp add: entry_el_def)

lemma twins_same_key:
  "wf_items [Item ''A'' TLink (Some ''/x'') None ''1'' None,
             Item ''A'' TLink (Some ''/y'') None ''2'' None] \<and>
   child_keys (TableOfContentsItems
     \<lparr>currentPath = ''/'', isTopLevel = Some True, setMenuOpenStateById = Some (), rest = [],
      className = None,
      items = [Item ''A'' TLink (Some ''/x'') None ''1'' None,
               Item ''A'' TLink (Some ''/y'') None ''2'' None]\<rparr>) = [''A'', ''A'']"
  by (simp add: wf_items_def wf_entry_def ids_def forest_def TableOfContentsItems_def)

subsection \<open>Props handed down\<close>

lemma link_props_simps [simp]:
  "link_props (ItemComponent_el c k p) = [p]"
  "link_props (TableOfContentsItems_el q) = []"
  "link_props (List_el cn t a ns) = concat (map link_props ns)"
  "link_props (li_el ns) = concat (map link_props ns)"
  "link_props (TopLevelMenuToggle_el h ns) = concat (map link_props ns)"
  "link_props (MenuLink_el h ns) = concat (map link_props ns)"
  "link_props (span_el ns) = concat (map link_props ns)"
  "link_props (ArrowIcon_el o1 o2) = []"
  "link_props (Text s) = []"
  "link_props Nothing = []"
  by (simp_all add: link_props_def gather_def gather_children)

lemma link_props_toggle_el [simp]: "link_props (toggle_el p) = []"
  by (simp add: toggle_el_def)

definition handed_down ::
  "string \<Rightarrow> 'cb option \<Rightarrow> (string \<times> string) list \<Rightarrow> 'cb MenuProps \<Rightarrow> bool" where
  "handed_down cp cb r q \<longleftrightarrow> currentPath q = cp \<and> setMenuOpenStateById q = cb \<and> rest q = r"

lemma link_props_view:
  "n \<in> set (view cp cb r is_top it) \<Longrightarrow> q \<in> set (link_props n) \<Longrightarrow> handed_down cp cb r q"
proof (induction it arbitrary: is_top n rule: Item_kids_induct)
  case (Item it)
  show ?case
  proof (cases "type it")
    case TMenu
    with Item.prems obtain c n' where "c \<in> set (kids it)"
      "n' \<in> set (view cp cb r False c)" "q \<in> set (link_props n')"
      by (auto simp: view.simps [of _ _ _ _ it] split: option.splits if_splits)
    then show ?thesis by (rule Item.IH)
  qed (use Item.prems in \<open>auto simp: view.simps [of _ _ _ _ it] entry_el_def handed_down_def\<close>)
qed

lemma link_props_view_list:
  "list_all (handed_down (currentPath p) (setMenuOpenStateById p) (rest p))
     (link_props (view_list p))"
  by (auto simp: view_list_def list_all_iff dest: link_props_view)

subsection \<open>Size\<close>

lemma length_subnodes_toggle_el: "length (subnodes (toggle_el p)) \<le> 4"
  by (simp add: toggle_el_def)

lemma length_subnodes_view:
  "length (concat (map subnodes (view cp cb r is_top it))) \<le> 6 * length (shown it)"
proof (induction it arbitrary: is_top rule: Item_kids_induct)
  case (Item it)
  have "length (concat (map subnodes (concat (map (view cp cb r False) (kids it))))) \<le>
      6 * length (visible (kids it))"
    unfolding concat_map_concat_map visible_def
    by (rule length_concat_le) (rule Item.IH)
  moreover have "length (subnodes (toggle_el
      \<lparr>currentPath = cp, isTopLevel = Some is_top, setMenuOpenStateById = cb, rest = r,
       item = it\<rparr>)) \<le> 4"
    by (rule length_subnodes_toggle_el)
  ultimately show ?case
    by (cases "type it")
      (simp_all add: view.simps [of _ _ _ _ it] shown_eq [of it] entry_el_def
        split: option.splits)
qed

lemma length_subnodes_view_list:
  "length (subnodes (view_list p)) \<le> 1 + 6 * length (visible (items p))"
proof -
  have "length (concat (map subnodes (concat (map
      (view (currentPath p) (setMenuOpenStateById p) (rest p) (truthy (isTopLevel p)))
      (items p))))) \<le> 6 * length (visible (items p))"
    unfolding concat_map_concat_map visible_def
    by (rule length_concat_le) (rule length_subnodes_view)
  then show ?thesis by (simp add: view_list_def)
qed

lemma length_shown_view:
  assumes "list_all (\<lambda>e. recognised (type e)) (shown it)"
  shows "length (shown it) \<le> length (concat (map subnodes (view cp cb r is_top it)))"
  using assms
proof (induction it arbitrary: is_top rule: Item_kids_induct)
  case (Item it)
  have sub: "length (visible (kids it)) \<le>
      length (concat (map subnodes (concat (map (view cp cb r False) (kids it)))))"
    if "type it = TMenu" "children it \<noteq> None" "truthy (isOpen it)"
    unfolding concat_map_concat_map visible_def
  proof (rule length_concat_mono)
    fix c assume c: "c \<in> set (kids it)"
    with Item.prems that have "list_all (\<lambda>e. recognised (type e)) (shown c)"
      by (auto simp: shown_eq [of it] visible_def list_all_iff)
    with c show "length (shown c) \<le> length (concat (map subnodes (view cp cb r False c)))"
      by (rule Item.IH)
  qed
  show ?case
  proof (cases "type it")
    case TMenu
    with sub show ?thesis
      by (auto simp: view.simps [of _ _ _ _ it] shown_eq [of it] split: option.splits)
  next
    case (TOther x)
    with Item.prems show ?thesis by (simp add: shown_eq [of it])
  qed (simp_all add: view.simps [of _ _ _ _ it] shown_eq [of it] entry_el_def)
qed

lemma length_visible_view_list:
  assumes "list_all (\<lambda>e. recognised (type e)) (visible (items p))"
  shows "length (visible (items p)) < length (subnodes (view_list p))"
proof -
  have "length (concat (map shown (items p))) \<le>
      length (concat (map (\<lambda>x. concat (map subnodes
        (view (currentPath p) (setMenuOpenStateById p) (rest p) (truthy (isTopLevel p)) x)))
        (items p)))"
    using assms
    by (intro length_concat_mono length_shown_view) (simp add: visible_def list_all_iff)
  then show ?thesis
    by (simp add: view_list_def visible_def concat_map_concat_map)
qed

subsection \<open>Properties of every rendering\<close>

text \<open>
  C7. A rendering that succeeds is one well-formed list: every row is a link element
  of the component its entry's type selects, keyed by the title, or a list item with one
  toggle; a list item holds a nested list exactly when its arrow is open and its toggle
  asks to close; only the rows of the outermost list use the top-level toggle and carry
  the top-level flag, every nested list and its rows do not; an ordered list holds only
  bulleted links.
\<close>

theorem render_well_formed:
  assumes "render (TableOfContentsItems_el p) = Inr ds"
  shows "length ds = 1 \<and> list_all (wf_markup (truthy (isTopLevel p))) ds"
  using render_Inr_view_list [OF assms] by simp

theorem render_well_formed_witness:
  "render (TableOfContentsItems_el (scenario_props (Some True))) =
     Inr [view_list (scenario_props (Some True))] \<and>
   wf_markup True (view_list (scenario_props (Some True)))"
  using render_well_formed [OF render_scenario [of "Some True"]]
  by (simp add: render_scenario)

text \<open>
  C27. The current path, the callback and the remaining props reach every link element
  of a rendering unchanged, at every depth.
\<close>

theorem render_hands_down:
  assumes "render (TableOfContentsItems_el p) = Inr ds"
  shows "list_all (handed_down (currentPath p) (setMenuOpenStateById p) (rest p))
     (concat (map link_props ds))"
  using render_Inr_view_list [OF assms] by (simp add: link_props_view_list)

theorem render_hands_down_witness:
  "render (TableOfContentsItems_el (scenario_props (Some True))) =
     Inr [view_list (scenario_props (Some True))] \<and>
   list_all (handed_down ''/a'' (Some ()) [])
     (link_props (view_list (scenario_props (Some True))))"
  using render_hands_down [OF render_scenario [of "Some True"]]
  by (simp add: render_scenario)

text \<open>
  C28. The size of a rendering is linear in the number of shown entries: it has more
  elements than shown entries, and at most six per shown entry beside the list itself.
\<close>

theorem render_size:
  assumes "render (TableOfContentsItems_el p) = Inr ds"
  shows "length (visible (items p)) < length (concat (map subnodes ds)) \<and>
     length (concat (map subnodes ds)) \<le> 1 + 6 * length (visible (items p))"
proof -
  from assms have "list_all (\<lambda>e. recognised (type e)) (visible (items p))"
    by (simp add: render_view_list split: if_splits)
  with render_Inr_view_list [OF assms] length_subnodes_view_list [of p] show ?thesis
    by (simp add: length_visible_view_list)
qed

theorem render_size_witness:
  "render (TableOfContentsItems_el (scenario_props (Some True))) =
     Inr [view_list (scenario_props (Some True))] \<and>
   length (visible (scenario (Some True))) <
     length (subnodes (view_list (scenario_props (Some True))))"
  using render_size [OF render_scenario [of "Some True"]]
  by (simp add: render_scenario)

text \<open>
  C35. The children of the list element are keyed by the titles of the entries, in
  order; two entries with the same title get the same key even when their identifiers
  differ.
\<close>

theorem child_keys_TableOfContentsItems:
  "child_keys (TableOfContentsItems p) = map title (items p)"
  by (simp add: TableOfContentsItems_entry_el comp_def)

end
