(* ===== verification/Flags.thy ===== *)
theory Flags
  imports Owner
begin

text \<open>
  The controller the specification recommends in place of flags scattered over the
  tree: one map from identifiers to booleans, changed by one update function, and a tree
  without flags that never changes. \<open>get_flags\<close> reads the map off a tree, \<open>put_flags\<close>
  writes a map onto a tree, \<open>controller_set\<close> is the update. The lemmas show that the two
  representations carry the same information when identifiers are distinct, that the
  owner's update of theory \<open>Owner\<close> is the controller's update seen through \<open>put_flags\<close>,
  and that the two state machines take the same steps.
\<close>

type_synonym flags = "string \<rightharpoonup> bool"

definition flag_binding :: "Item \<Rightarrow> (string \<times> bool) list" where
  "flag_binding it = (case isOpen it of None \<Rightarrow> [] | Some b \<Rightarrow> [(item_id it, b)])"

definition get_flags :: "Item list \<Rightarrow> flags" where
  "get_flags s = map_of (concat (map flag_binding (forest s)))"

fun put_flags :: "flags \<Rightarrow> Item \<Rightarrow> Item" where
  "put_flags f (Item t ty p ch j ob) = Item t ty p (map_option (map (put_flags f)) ch) j (f j)"

definition controller_set :: "SetMenuOpenStateByIdArgs \<Rightarrow> flags \<Rightarrow> flags" where
  "controller_set a f = f(arg_id a \<mapsto> arg_isOpen a)"

inductive ctl_step :: "string \<Rightarrow> Item list \<Rightarrow> flags \<Rightarrow> flags \<Rightarrow> bool"
  for cp :: string and sk :: "Item list" where
  click: "a \<in> set (clicks cp (map (put_flags f) sk)) \<Longrightarrow> ctl_step cp sk f (controller_set a f)"


subsection \<open>Writing flags\<close>

lemma put_flags_sel [simp, toc_frame]:
  "title (put_flags f it) = title it"
  "type (put_flags f it) = type it"
  "path (put_flags f it) = path it"
  "item_id (put_flags f it) = item_id it"
  "children (put_flags f it) = map_option (map (put_flags f)) (children it)"
  "isOpen (put_flags f it) = f (item_id it)"
  by (cases it; simp; fail)+

lemma kids_put_flags [simp]: "kids (put_flags f it) = map (put_flags f) (kids it)"
  by (cases it) (simp add: kids_def split: option.splits)

lemma put_flags_set_open: "put_flags (f(i \<mapsto> b)) it = set_open i b (put_flags f it)"
proof (induction it)
  case (Item t ty p ch j ob)
  then show ?case by (cases ch) (simp_all cong: map_cong)
qed

lemma put_flags_controller_set:
  "map (put_flags (controller_set a f)) sk = set_open_all a (map (put_flags f) sk)"
  by (simp add: controller_set_def set_open_all_def put_flags_set_open)

lemma put_flags_skeleton [simp]: "skeleton (put_flags f it) = skeleton it"
proof (induction it)
  case (Item t ty p ch j ob)
  then show ?case by (cases ch) (simp_all cong: map_cong)
qed

lemma put_flags_id:
  assumes "\<And>e. e \<in> set (nodes it) \<Longrightarrow> f (item_id e) = isOpen e"
  shows "put_flags f it = it"
  using assms
proof (induction it rule: Item_kids_induct)
  case (Item it)
  have "map (put_flags f) (kids it) = kids it"
  proof (rule map_idI)
    fix c assume c: "c \<in> set (kids it)"
    then have "\<And>e. e \<in> set (nodes c) \<Longrightarrow> f (item_id e) = isOpen e"
      using kids_in_nodes [of c it] Item.prems by blast
    with c show "put_flags f c = c" by (rule Item.IH)
  qed
  moreover have "f (item_id it) = isOpen it"
    by (rule Item.prems) (rule self_in_nodes)
  ultimately show ?case
    by (cases it) (auto simp: kids_def split: option.splits)
qed

subsection \<open>Reading flags\<close>

lemma flag_binding_simps:
  "isOpen it = None \<Longrightarrow> flag_binding it = []"
  "isOpen it = Some b \<Longrightarrow> flag_binding it = [(item_id it, b)]"
  by (simp_all add: flag_binding_def)

lemma map_of_flag_bindings_None:
  "i \<notin> item_id ` set xs \<Longrightarrow> map_of (concat (map flag_binding xs)) i = None"
proof (induction xs)
  case Nil
  then show ?case by simp
next
  case (Cons x xs)
  then show ?case by (cases "isOpen x") (simp_all add: flag_binding_simps)
qed

lemma map_of_flag_bindings:
  assumes "distinct (map item_id xs)" and "e \<in> set xs"
  shows "map_of (concat (map flag_binding xs)) (item_id e) = isOpen e"
  using assms
proof (induction xs)
  case Nil
  then show ?case by simp
next
  case (Cons x xs)
  show ?case
  proof (cases "e = x")
    case True
    with Cons.prems(1) show ?thesis
      by (cases "isOpen x") (simp_all add: flag_binding_simps map_of_flag_bindings_None)
  next
    case False
    with Cons.prems have "e \<in> set xs" by simp
    with Cons.prems(1) have "item_id e \<noteq> item_id x"
      by (auto simp: image_iff)
    note \<open>e \<in> set xs\<close> this
    with Cons.IH Cons.prems(1) show ?thesis
      by (cases "isOpen x") (simp_all add: flag_binding_simps)
  qed
qed

lemma get_flags_entry:
  "distinct (ids s) \<Longrightarrow> e \<in> set (forest s) \<Longrightarrow> get_flags s (item_id e) = isOpen e"
  unfolding get_flags_def ids_def by (rule map_of_flag_bindings)

lemma get_flags_absent: "i \<notin> set (ids s) \<Longrightarrow> get_flags s i = None"
  by (simp add: get_flags_def ids_def map_of_flag_bindings_None)

lemma put_get_flags: "distinct (ids s) \<Longrightarrow> map (put_flags (get_flags s)) s = s"
proof (rule map_idI)
  fix it assume d: "distinct (ids s)" and it: "it \<in> set s"
  show "put_flags (get_flags s) it = it"
  proof (rule put_flags_id)
    fix e assume "e \<in> set (nodes it)"
    with it have "e \<in> set (forest s)" using nodes_in_forest by blast
    with d show "get_flags s (item_id e) = isOpen e" by (rule get_flags_entry)
  qed
qed

lemma nodes_put_flags: "nodes (put_flags f it) = map (put_flags f) (nodes it)"
proof (induction it rule: Item_kids_induct)
  case (Item it)
  then have "concat (map (\<lambda>c. nodes (put_flags f c)) (kids it)) =
      concat (map (\<lambda>c. map (put_flags f) (nodes c)) (kids it))"
    by (simp cong: concat_map_cong_set)
  then show ?case
    by (simp add: nodes_eq [of "put_flags f it"] nodes_eq [of it] forest_def comp_def
        map_concat_map)
qed

lemma forest_put_flags: "forest (map (put_flags f) its) = map (put_flags f) (forest its)"
  by (induction its) (simp_all add: nodes_put_flags)

lemma ids_put_flags [simp]: "ids (map (put_flags f) its) = ids its"
  by (simp add: ids_def forest_put_flags comp_def)

lemma flag_binding_put_flags:
  "flag_binding (put_flags f x) =
     (case f (item_id x) of None \<Rightarrow> [] | Some b \<Rightarrow> [(item_id x, b)])"
  by (simp add: flag_binding_def split: option.splits)

lemma map_of_put_flags:
  "map_of (concat (map flag_binding (map (put_flags f) xs))) i =
     (if i \<in> item_id ` set xs then f i else None)"
proof (induction xs)
  case Nil
  then show ?case by simp
next
  case (Cons x xs)
  then show ?case
    by (cases "f (item_id x)") (auto simp: flag_binding_put_flags)
qed

lemma get_put_flags: "get_flags (map (put_flags f) s) = f |` set (ids s)"
  by (rule ext)
    (simp add: get_flags_def forest_put_flags map_of_put_flags ids_def restrict_map_def
      del: map_map)

lemma flag_binding_set_open:
  "flag_binding (set_open i b x) = (if item_id x = i then [(i, b)] else flag_binding x)"
  by (simp add: flag_binding_def split: option.splits)

lemma map_of_set_open:
  "map_of (concat (map flag_binding (map (set_open i b) xs))) j =
     (if j = i \<and> i \<in> item_id ` set xs then Some b
      else map_of (concat (map flag_binding xs)) j)"
proof (induction xs)
  case Nil
  then show ?case by simp
next
  case (Cons x xs)
  then show ?case
    by (cases "isOpen x")
      (auto simp: flag_binding_set_open flag_binding_simps map_of_flag_bindings_None)
qed

lemma get_flags_set_open_all:
  "get_flags (set_open_all a s) =
     (if arg_id a \<in> set (ids s) then controller_set a (get_flags s) else get_flags s)"
  by (rule ext)
    (simp add: get_flags_def set_open_all_def forest_set_open map_of_set_open ids_def
      controller_set_def del: map_map)

subsection \<open>The two representations\<close>

text \<open>
  C18. A tree with distinct identifiers and the pair of its flag-free shape and its map
  of flags determine each other: writing the flags read off a tree back onto it gives
  the same tree, and reading the flags of a tree a map was written onto gives the map,
  restricted to the identifiers that occur.
\<close>

theorem flags_roundtrip:
  assumes "distinct (ids s)"
  shows "map (put_flags (get_flags s)) s = s \<and>
     get_flags (map (put_flags f) s) = f |` set (ids s)"
  using assms by (simp add: put_get_flags get_put_flags)

theorem flags_roundtrip_witness:
  "distinct (ids (scenario (Some True))) \<and>
   map (put_flags (get_flags (scenario (Some True)))) (scenario (Some True)) =
     scenario (Some True) \<and>
   get_flags (map (put_flags [''b'' \<mapsto> False]) (scenario (Some True))) ''b'' = Some False"
  using flags_roundtrip [of "scenario (Some True)" "[''b'' \<mapsto> False]"]
  by simp

text \<open>
  C19. The owner's update of the tree is the controller's update of the map: updating
  the map and then writing it onto the tree is the same as writing it and then running
  \<open>setMenuOpenStateById\<close> on the tree, and the flags read off the updated tree are the
  updated map. An update for an identifier that does not occur changes nothing.
\<close>

theorem owner_refines_controller:
  "set_open_all a (map (put_flags f) sk) = map (put_flags (controller_set a f)) sk \<and>
   get_flags (set_open_all a s) =
     (if arg_id a \<in> set (ids s) then controller_set a (get_flags s) else get_flags s)"
  by (simp add: put_flags_controller_set get_flags_set_open_all)


end
