(* ===== verification/Clicks.thy ===== *)
theory Clicks
  imports Owner
begin

text \<open>
  Sequences of clicks. In the state machine of theory \<open>Owner\<close> every click is followed
  by a re-rendering. The rendering library does not promise that: a click handler is a
  closure over the entry of the rendering it belongs to (line 90), and the user can
  click again before the owner's update has led to a new rendering. Here the state keeps
  both the owner's tree and the tree the screen was last rendered from; a click is
  enabled when the screen offers it and acts on the owner's tree; a re-rendering brings
  the screen up to date. \<open>run\<close> executes a sequence of events and fails when an event is
  not enabled.
\<close>

record ui =
  tree :: "Item list"
  screen :: "Item list"

datatype event = Click SetMenuOpenStateByIdArgs | Rerender

fun fire :: "string \<Rightarrow> event \<Rightarrow> ui \<Rightarrow> ui option" where
  "fire cp (Click a) u =
     (if a \<in> set (clicks cp (screen u)) then Some (u\<lparr>tree := set_open_all a (tree u)\<rparr>)
      else None)"
| "fire cp Rerender u = Some (u\<lparr>screen := tree u\<rparr>)"

fun run :: "string \<Rightarrow> event list \<Rightarrow> ui \<Rightarrow> ui option" where
  "run cp [] u = Some u"
| "run cp (e # es) u = (case fire cp e u of None \<Rightarrow> None | Some u' \<Rightarrow> run cp es u')"

definition synced :: "Item list \<Rightarrow> ui" where
  "synced s = \<lparr>tree = s, screen = s\<rparr>"

definition flip :: "SetMenuOpenStateByIdArgs \<Rightarrow> SetMenuOpenStateByIdArgs" where
  "flip a = a\<lparr>arg_isOpen := \<not> arg_isOpen a\<rparr>"

subsection \<open>Updates of the tree\<close>

lemma set_open_twice: "set_open i c (set_open i b it) = set_open i c it"
proof (induction it)
  case (Item t ty p ch j ob)
  then show ?case by (cases ch) (simp_all cong: map_cong)
qed




subsection \<open>Runs\<close>

lemma run_append:
  "run cp (es @ fs) u = (case run cp es u of None \<Rightarrow> None | Some u' \<Rightarrow> run cp fs u')"
  by (induction es arbitrary: u) (simp_all split: option.splits)

lemma fire_frame:
  assumes "fire cp e u = Some u'"
    and "map skeleton (screen u) = map skeleton (tree u)"
  shows "map skeleton (tree u') = map skeleton (tree u)"
    and "map skeleton (screen u') = map skeleton (tree u)"
    and "ids (tree u') = ids (tree u)"
  using assms by (cases e; auto split: if_splits; fail)+

lemma run_frame:
  assumes "run cp es u = Some u'"
    and "map skeleton (screen u) = map skeleton (tree u)"
  shows "map skeleton (tree u') = map skeleton (tree u) \<and>
     map skeleton (screen u') = map skeleton (tree u) \<and> ids (tree u') = ids (tree u)"
  using assms
proof (induction es arbitrary: u)
  case Nil
  then show ?case by simp
next
  case (Cons e es)
  from Cons.prems(1) obtain v where v: "fire cp e u = Some v" and r: "run cp es v = Some u'"
    by (auto split: option.splits)
  from fire_frame [OF v Cons.prems(2)] Cons.IH [OF r] show ?case by simp
qed

lemma ids_skeleton: "map skeleton s = map skeleton t \<Longrightarrow> ids s = ids t"
proof -
  have n: "map item_id (nodes (skeleton it)) = map item_id (nodes it)" for it
  proof (induction it rule: Item_kids_induct)
    case (Item it)
    have k: "kids (skeleton it) = map skeleton (kids it)"
      by (cases it) (simp add: kids_def split: option.splits)
    have i: "item_id (skeleton it) = item_id it" by (cases it) simp
    from Item have "concat (map (\<lambda>c. map item_id (nodes (skeleton c))) (kids it)) =
        concat (map (\<lambda>c. map item_id (nodes c)) (kids it))"
      by (simp cong: concat_map_cong_set)
    then show ?case
      by (simp add: nodes_eq [of "skeleton it"] nodes_eq [of it] k i forest_def comp_def
          map_concat_map)
  qed
  have "ids (map skeleton s) = ids s" for s
    by (induction s) (simp_all add: ids_def forest_def n)
  then show "map skeleton s = map skeleton t \<Longrightarrow> ids s = ids t" by metis
qed

lemma clicks_ids: "a \<in> set (clicks cp s) \<Longrightarrow> arg_id a \<in> set (ids s)"
  by (auto simp: clicks_eq toggle_args_def dest: visible_ids split: if_splits)

lemma run_synced_click:
  "run cp [Click a, Rerender] (synced s) =
     (if a \<in> set (clicks cp s) then Some (synced (set_open_all a s)) else None)"
  by (simp add: synced_def)

subsection \<open>Two clicks on one toggle\<close>

lemma visible_toggled_entry:
  assumes "distinct (ids s)" and "m \<in> set (visible s)" and "type m = TMenu"
  shows "set_open (item_id m) b m \<in> set (visible (map (set_open (item_id m) b) s))"
proof -
  let ?t = "map (set_open (item_id m) b) s"
  from vis_ids_toggled [OF assms, of b] have "item_id m \<in> set (vis_ids ?t)" by auto
  then obtain m' where m': "m' \<in> set (visible ?t)" "item_id m' = item_id m"
    by (auto simp: vis_ids_def)
  with visible_subset_forest [of ?t] obtain e where e: "e \<in> set (forest s)"
    "m' = set_open (item_id m) b e"
    by (auto simp: forest_set_open)
  with m'(2) have "item_id e = item_id m" by simp
  with assms(1) e(1) have "e = m"
    using assms(2) visible_subset_forest [of s] by (auto intro: forest_entry_unique)
  with e m' show ?thesis by simp
qed

lemma click_twice:
  assumes "wf_items s" and "m \<in> set (visible s)" and "type m = TMenu"
  shows "flip (toggle_args m) \<in> set (clicks cp (set_open_all (toggle_args m) s))"
    and "vis_ids (set_open_all (flip (toggle_args m)) (set_open_all (toggle_args m) s)) =
      vis_ids s"
    and "open_ids (set_open_all (flip (toggle_args m)) (set_open_all (toggle_args m) s)) =
      open_ids s"
proof -
  let ?i = "item_id m" and ?b = "\<not> truthy (isOpen m)"
  let ?t = "map (set_open ?i ?b) s"
  from assms(1) have d: "distinct (ids s)" by (rule wf_items_distinct)
  from assms(2) visible_subset_forest have f: "m \<in> set (forest s)" by blast
  have t: "set_open_all (toggle_args m) s = ?t"
    by (simp add: set_open_all_def toggle_args_def)
  from assms(1) have "wf_items ?t" using wf_items_set_open_all [of "toggle_args m" s] t by simp
  then have "list_all (\<lambda>e. recognised (type e)) (visible ?t)"
    by (auto simp: list_all_iff dest: wf_items_visible_recognised)
  moreover from visible_toggled_entry [OF d assms(2,3)] assms(3)
  have "toggle_args (set_open ?i ?b m) \<in> toggle_args ` {e \<in> set (visible ?t). type e = TMenu}"
    by (intro imageI) simp
  ultimately show "flip (toggle_args m) \<in> set (clicks cp (set_open_all (toggle_args m) s))"
    by (simp add: t clicks_eq) (simp add: toggle_args_def flip_def)
  have tt: "set_open_all (flip (toggle_args m)) (set_open_all (toggle_args m) s) =
      map (set_open ?i (truthy (isOpen m))) s"
    by (simp add: set_open_all_def toggle_args_def flip_def set_open_twice)
  from vis_ids_toggled [OF d assms(2,3), of "truthy (isOpen m)"]
  show "vis_ids (set_open_all (flip (toggle_args m)) (set_open_all (toggle_args m) s)) =
      vis_ids s"
    by (auto simp: tt)
  from open_ids_member [OF d f] visible_ids [OF assms(2)]
  show "open_ids (set_open_all (flip (toggle_args m)) (set_open_all (toggle_args m) s)) =
      open_ids s"
    by (auto simp: tt open_ids_map_set_open)
qed

subsection \<open>Properties of runs\<close>

text \<open>
  C16. Two clicks on the same toggle, each followed by a re-rendering, bring the
  component back: the second rendering offers the opposite request for the same menu,
  and after it the shown entries and the set of open menus are those before the first
  click.
\<close>

theorem click_pair_restores:
  assumes "wf_items s" and "a \<in> set (clicks cp s)"
  shows "\<exists>t. run cp [Click a, Rerender, Click (flip a), Rerender] (synced s) = Some (synced t) \<and>
     vis_ids t = vis_ids s \<and> open_ids t = open_ids s"
proof -
  from assms(2) obtain m where m: "m \<in> set (visible s)" "type m = TMenu"
    and a: "a = toggle_args m"
    by (auto simp: clicks_eq split: if_splits)
  from click_twice(1) [OF assms(1) m, of cp] click_twice(2,3) [OF assms(1) m] assms(2)
  show ?thesis
    by (simp add: a synced_def)
qed

theorem click_pair_restores_witness:
  "wf_items (scenario None) \<and>
   run ''/a'' [Click \<lparr>arg_id = ''b'', arg_isOpen = True\<rparr>, Rerender,
               Click \<lparr>arg_id = ''b'', arg_isOpen = False\<rparr>, Rerender] (synced (scenario None)) =
     Some (synced (scenario (Some False))) \<and>
   vis_ids (scenario (Some False)) = vis_ids (scenario None)"
  using click_pair_restores [of "scenario None" "\<lparr>arg_id = ''b'', arg_isOpen = True\<rparr>" "''/a''"]
  by (simp add: synced_def flip_def)



text \<open>
  The state machine of clicks with immediate re-rendering is the special case of runs in
  which every click is followed by a re-rendering.
\<close>

lemma ui_step_run:
  "ui_step cp s t \<longleftrightarrow> (\<exists>a. run cp [Click a, Rerender] (synced s) = Some (synced t))"
  by (auto simp: ui_step_iff run_synced_click synced_def split: if_splits)

text \<open>
  C30. Whatever the order of clicks and re-renderings, the owner's tree and the tree on
  screen keep the shape and the identifiers of the start, so every request the screen
  offers, however old, names an entry of the owner's tree.
\<close>

theorem run_invariant:
  assumes "run cp es (synced s0) = Some u"
  shows "map skeleton (tree u) = map skeleton s0 \<and> map skeleton (screen u) = map skeleton s0 \<and>
     (\<forall>a \<in> set (clicks cp (screen u)). arg_id a \<in> set (ids (tree u)))"
proof -
  from run_frame [OF assms] have f: "map skeleton (tree u) = map skeleton s0"
    "map skeleton (screen u) = map skeleton s0"
    by (simp_all add: synced_def)
  then have "ids (screen u) = ids (tree u)" by (intro ids_skeleton) simp
  with f show ?thesis by (auto dest: clicks_ids)
qed

theorem run_invariant_witness:
  "run ''/a'' [Click \<lparr>arg_id = ''b'', arg_isOpen = True\<rparr>] (synced (scenario None)) =
     Some \<lparr>tree = scenario (Some True), screen = scenario None\<rparr> \<and>
   clicks ''/a'' (scenario None) = [\<lparr>arg_id = ''b'', arg_isOpen = True\<rparr>] \<and>
   ''b'' \<in> set (ids (scenario (Some True)))"
  using run_invariant [of "''/a''" "[Click \<lparr>arg_id = ''b'', arg_isOpen = True\<rparr>]"
      "scenario None" "\<lparr>tree = scenario (Some True), screen = scenario None\<rparr>"]
  by (simp add: synced_def)

end
