(* ===== verification/Reveal.thy ===== *)
theory Reveal
  imports Owner
begin

text \<open>
  What clicking can bring into view, and how many clicks it takes. \<open>navigable\<close> lists
  the entries that lie below menus only: the children of an entry that is not a menu are
  never rendered, whatever the flags. The theory shows that the shown entries of every
  reachable state are among the navigable ones, and that from a well-formed tree some
  sequence of clicks reaches a state in which all of them are shown. \<open>todo\<close> is the set
  of the navigable menus that are closed: a click on a shown closed menu takes one
  identifier out of it and no click takes out more than one, so the number of clicks
  that fully expands a tree is the size of that set (\<open>ui_step cp ^^ n\<close> is \<open>n\<close> clicks,
  each followed by the owner's update).
\<close>

fun navigable :: "Item \<Rightarrow> Item list" where
  "navigable it = it # (if type it = TMenu then concat (map navigable (kids it)) else [])"

declare navigable.simps [simp del]

definition nav_ids :: "Item list \<Rightarrow> string list" where
  "nav_ids s = map item_id (concat (map navigable s))"

definition all_open :: "Item list \<Rightarrow> bool" where
  "all_open s \<longleftrightarrow> list_all (\<lambda>m. type m = TMenu \<longrightarrow> truthy (isOpen m)) (visible s)"

definition menu_ids :: "Item list \<Rightarrow> string list" where
  "menu_ids s = map item_id (filter (\<lambda>m. type m = TMenu) (concat (map navigable s)))"

definition todo :: "Item list \<Rightarrow> string set" where
  "todo s = set (menu_ids s) - open_ids s"

subsection \<open>Navigable entries\<close>

lemma shown_subset_navigable: "set (shown it) \<subseteq> set (navigable it)"
proof (induction it rule: Item_kids_induct)
  case (Item it)
  then have "set (concat (map shown (kids it))) \<subseteq> set (concat (map navigable (kids it)))"
    by (intro concat_map_subset)
  then show ?case
    by (auto simp: shown_eq [of it] navigable.simps [of it] visible_def split: option.splits)
qed

lemma navigable_set_open_map: "navigable (set_open i b it) = map (set_open i b) (navigable it)"
proof (induction it rule: Item_kids_induct)
  case (Item it)
  then have "concat (map (\<lambda>c. navigable (set_open i b c)) (kids it)) =
      concat (map (\<lambda>c. map (set_open i b) (navigable c)) (kids it))"
    by (simp cong: concat_map_cong_set)
  then show ?case
    by (simp add: navigable.simps [of "set_open i b it"] navigable.simps [of it]
        map_concat_map comp_def)
qed

lemma nav_ids_set_open_all [simp]: "nav_ids (set_open_all a s) = nav_ids s"
  by (induction s) (simp_all add: nav_ids_def set_open_all_def navigable_set_open_map comp_def)

lemma nav_ids_reachable: "reachable cp s t \<Longrightarrow> nav_ids t = nav_ids s"
  by (induction rule: reachable.induct) (auto simp: ui_step_iff)

lemma menu_ids_set_open_all [simp]: "menu_ids (set_open_all a s) = menu_ids s"
  by (induction s)
    (simp_all add: menu_ids_def set_open_all_def navigable_set_open_map filter_map comp_def)

lemma menu_ids_ui_step: "ui_step cp s t \<Longrightarrow> menu_ids t = menu_ids s"
  by (auto simp: ui_step_iff)

lemma relpow_reachable: "(ui_step cp ^^ n) s t \<Longrightarrow> reachable cp s t"
  by (induction n arbitrary: t) (auto intro: reachable.intros)

lemma vis_ids_subset_nav_ids: "set (vis_ids s) \<subseteq> set (nav_ids s)"
proof -
  have "set (concat (map shown s)) \<subseteq> set (concat (map navigable s))"
    by (intro concat_map_subset shown_subset_navigable)
  then have "item_id ` set (concat (map shown s)) \<subseteq> item_id ` set (concat (map navigable s))"
    by (rule image_mono)
  then show ?thesis by (simp add: vis_ids_def nav_ids_def visible_def)
qed

subsection \<open>Fully opened trees\<close>

lemma shown_all_open:
  assumes "\<And>m. m \<in> set (shown it) \<Longrightarrow> type m = TMenu \<Longrightarrow> truthy (isOpen m)"
    and "\<And>e. e \<in> set (nodes it) \<Longrightarrow> type e = TMenu \<Longrightarrow> children e \<noteq> None"
  shows "shown it = navigable it"
  using assms
proof (induction it rule: Item_kids_induct)
  case (Item it)
  show ?case
  proof (cases "type it = TMenu")
    case False
    then show ?thesis by (simp add: shown_eq [of it] navigable.simps [of it])
  next
    case True
    with Item.prems(2) [OF self_in_nodes] have ch: "children it \<noteq> None" by simp
    with True have "it \<in> set (shown it)" by (auto simp: shown_eq [of it])
    with True Item.prems(1) have op: "truthy (isOpen it)" by simp
    have "shown c = navigable c" if c: "c \<in> set (kids it)" for c
    proof (rule Item.IH [OF c])
      fix m assume "m \<in> set (shown c)" "type m = TMenu"
      with c True ch op show "truthy (isOpen m)"
        by (intro Item.prems(1)) (auto simp: shown_eq [of it] visible_def)
    next
      fix e assume "e \<in> set (nodes c)" "type e = TMenu"
      with c kids_in_nodes show "children e \<noteq> None" by (intro Item.prems(2)) auto
    qed
    then have "concat (map shown (kids it)) = concat (map navigable (kids it))"
      by (simp cong: concat_map_cong_set)
    with True ch op show ?thesis
      by (auto simp: shown_eq [of it] navigable.simps [of it] visible_def)
  qed
qed

lemma wf_items_menu_children:
  assumes "wf_items s" and "e \<in> set (forest s)" and "type e = TMenu"
  shows "children e \<noteq> None"
  using wf_items_entry [OF assms(1,2)] assms(3)
  by (cases "children e") (auto simp: wf_entry_def kids_def)

lemma all_open_visible:
  assumes "wf_items s" and "all_open s"
  shows "visible s = concat (map navigable s)"
proof -
  have "shown it = navigable it" if it: "it \<in> set s" for it
  proof (rule shown_all_open)
    fix m assume "m \<in> set (shown it)" "type m = TMenu"
    with it assms(2) show "truthy (isOpen m)"
      by (auto simp: all_open_def list_all_iff visible_def)
  next
    fix e assume "e \<in> set (nodes it)" "type e = TMenu"
    with it nodes_in_forest show "children e \<noteq> None"
      by (intro wf_items_menu_children [OF assms(1)]) auto
  qed
  then show ?thesis by (simp add: visible_def cong: concat_map_cong_set)
qed

lemma all_open_vis_ids:
  assumes "wf_items s" and "all_open s"
  shows "vis_ids s = nav_ids s"
  by (simp add: vis_ids_def nav_ids_def all_open_visible [OF assms])

subsection \<open>Progress\<close>

lemma finite_todo [simp]: "finite (todo s)"
  by (simp add: todo_def)

lemma all_open_todo:
  assumes "wf_items s" and "all_open s"
  shows "todo s = {}"
proof -
  have "item_id m \<in> open_ids s" if "m \<in> set (concat (map navigable s))" "type m = TMenu" for m
  proof -
    from that(1) have v: "m \<in> set (visible s)" by (simp add: all_open_visible [OF assms])
    with that(2) assms(2) have "truthy (isOpen m)" by (auto simp: all_open_def list_all_iff)
    with v visible_subset_forest [of s] wf_items_distinct [OF assms(1)] show ?thesis
      by (auto simp: open_ids_member)
  qed
  then show ?thesis by (auto simp: todo_def menu_ids_def)
qed

lemma todo_ui_step:
  assumes "ui_step cp s t"
  shows "card (todo s) \<le> Suc (card (todo t))"
proof -
  from assms obtain m where m: "m \<in> set (visible s)"
    and t: "t = set_open_all (toggle_args m) s"
    by (auto simp: ui_step_iff clicks_eq split: if_splits)
  from m have "item_id m \<in> set (ids s)" by (rule visible_ids)
  with t have "open_ids t \<subseteq> insert (item_id m) (open_ids s)"
    by (auto simp: set_open_all_def toggle_args_def open_ids_map_set_open split: if_splits)
  with menu_ids_ui_step [OF assms] have "todo s - {item_id m} \<subseteq> todo t"
    by (auto simp: todo_def)
  then have "card (todo s - {item_id m}) \<le> card (todo t)" by (intro card_mono) simp_all
  then show ?thesis by (simp add: card_Diff_singleton_if split: if_splits)
qed

lemma todo_relpow:
  "(ui_step cp ^^ n) s t \<Longrightarrow> card (todo s) \<le> n + card (todo t)"
proof (induction n arbitrary: t)
  case (Suc n)
  then obtain u where "(ui_step cp ^^ n) s u" "ui_step cp u t" by auto
  with Suc.IH [of u] todo_ui_step [of cp u t] show ?case by simp
qed simp

lemma open_one:
  assumes "wf_items s" and "\<not> all_open s"
  shows "\<exists>t i. ui_step cp s t \<and> i \<in> todo s \<and> todo t = todo s - {i}"
proof -
  from assms(2) obtain m where m: "m \<in> set (visible s)" "type m = TMenu" "\<not> truthy (isOpen m)"
    by (auto simp: all_open_def list_all_iff)
  from assms(1) have "list_all (\<lambda>e. recognised (type e)) (visible s)"
    by (auto simp: list_all_iff dest: wf_items_visible_recognised)
  with m have s: "ui_step cp s (set_open_all (toggle_args m) s)"
    by (auto simp: ui_step_iff clicks_eq)
  from m(1) have i: "item_id m \<in> set (ids s)" by (rule visible_ids)
  from m visible_subset_forest [of s] wf_items_distinct [OF assms(1)]
  have "item_id m \<notin> open_ids s" by (auto simp: open_ids_member)
  moreover from m(1) have "m \<in> set (concat (map navigable s))"
    using shown_subset_navigable by (fastforce simp: visible_def)
  with m(2) have "item_id m \<in> set (menu_ids s)" by (auto simp: menu_ids_def)
  ultimately have "item_id m \<in> todo s" by (simp add: todo_def)
  moreover from i m(3) have "open_ids (set_open_all (toggle_args m) s) =
      insert (item_id m) (open_ids s)"
    by (simp add: set_open_all_def toggle_args_def open_ids_map_set_open)
  then have "todo (set_open_all (toggle_args m) s) = todo s - {item_id m}"
    by (auto simp: todo_def)
  ultimately show ?thesis using s by blast
qed

lemma open_all_exact:
  assumes "wf_items s"
  shows "\<exists>t. (ui_step cp ^^ card (todo s)) s t \<and> all_open t"
  using assms
proof (induction "card (todo s)" arbitrary: s)
  case 0
  then have "todo s = {}" by simp
  with open_one [OF "0.prems", of cp] have "all_open s" by auto
  with 0 show ?case by auto
next
  case (Suc k)
  with all_open_todo [of s] have "\<not> all_open s" by auto
  from open_one [OF Suc.prems this, of cp] obtain t i
    where t: "ui_step cp s t" "i \<in> todo s" "todo t = todo s - {i}"
    by blast
  with Suc.hyps(2) have k: "k = card (todo t)" by simp
  from ui_step_frame [OF t(1)] Suc.prems have "wf_items t" by simp
  from Suc.hyps(1) [OF k this] obtain u where "(ui_step cp ^^ card (todo t)) t u" "all_open u"
    by blast
  with t(1) have "(ui_step cp ^^ Suc (card (todo t))) s u" by (intro relpowp_Suc_I2)
  with k Suc.hyps(2) \<open>all_open u\<close> show ?case by (intro exI [of _ u]) simp
qed

lemma reach_all_open:
  assumes "wf_items s"
  shows "\<exists>t. reachable cp s t \<and> all_open t"
  using open_all_exact [OF assms, of cp] by (auto dest: relpow_reachable)

text \<open>
  C13. Every entry that lies below menus only can be brought into view: from a
  well-formed tree some sequence of clicks reaches a state that shows all of them, in
  the order of the tree. No state shows anything else, so the children of an entry that
  is not a menu are never shown.
\<close>

theorem reveal_all:
  assumes "wf_items s"
  shows "(\<exists>t. reachable cp s t \<and> vis_ids t = nav_ids s) \<and>
     (\<forall>t. reachable cp s t \<longrightarrow> set (vis_ids t) \<subseteq> set (nav_ids s))"
proof
  from reach_all_open [OF assms, of cp] obtain t where t: "reachable cp s t" "all_open t"
    by blast
  from reachable_frame [OF t(1)] assms have "wf_items t" by simp
  with t(2) have "vis_ids t = nav_ids t" by (intro all_open_vis_ids)
  with t(1) nav_ids_reachable [OF t(1)]
  show "\<exists>t. reachable cp s t \<and> vis_ids t = nav_ids s"
    by auto
  show "\<forall>t. reachable cp s t \<longrightarrow> set (vis_ids t) \<subseteq> set (nav_ids s)"
    using vis_ids_subset_nav_ids nav_ids_reachable by metis
qed

theorem reveal_all_witness:
  "wf_items (scenario None) \<and> reachable ''/a'' (scenario None) (scenario (Some True)) \<and>
   vis_ids (scenario (Some True)) = nav_ids (scenario None) \<and>
   set (vis_ids (scenario (Some True))) \<subseteq> set (nav_ids (scenario None))"
proof -
  have r: "reachable ''/a'' (scenario None) (scenario (Some True))"
    using reachable.step [OF reachable.start ui_step_scenario [of "''/a''" None]] by simp
  have "vis_ids (scenario (Some True)) = nav_ids (scenario None)"
    by (simp add: vis_ids_def nav_ids_def visible_scenario)
      (simp add: scenario_def navigable.simps kids_def)
  with r reveal_all [of "scenario None" "''/a''"] show ?thesis by auto
qed


text \<open>
  C17. The number of clicks that fully expands a well-formed tree is the number of its
  navigable menus that are closed: that many clicks reach a state in which every shown
  menu is open and every navigable entry is shown, and no sequence of fewer clicks
  reaches a state in which every shown menu is open.
\<close>

theorem reveal_clicks:
  assumes "wf_items s"
  shows "(\<exists>t. (ui_step cp ^^ card (todo s)) s t \<and> all_open t \<and> vis_ids t = nav_ids s) \<and>
     (\<forall>n t. (ui_step cp ^^ n) s t \<and> all_open t \<longrightarrow> card (todo s) \<le> n)"
proof
  from open_all_exact [OF assms, of cp] obtain t
    where t: "(ui_step cp ^^ card (todo s)) s t" "all_open t"
    by blast
  from relpow_reachable [OF t(1)] have r: "reachable cp s t" .
  from reachable_frame [OF r] assms have "wf_items t" by simp
  with t(2) nav_ids_reachable [OF r] have "vis_ids t = nav_ids s"
    by (simp add: all_open_vis_ids)
  with t show "\<exists>t. (ui_step cp ^^ card (todo s)) s t \<and> all_open t \<and> vis_ids t = nav_ids s"
    by blast
  show "\<forall>n t. (ui_step cp ^^ n) s t \<and> all_open t \<longrightarrow> card (todo s) \<le> n"
  proof (intro allI impI)
    fix n t assume nt: "(ui_step cp ^^ n) s t \<and> all_open t"
    then have r: "reachable cp s t" by (auto dest: relpow_reachable)
    from reachable_frame [OF r] assms have "wf_items t" by simp
    with nt have "todo t = {}" by (intro all_open_todo) simp_all
    with todo_relpow [of n cp s t] nt show "card (todo s) \<le> n" by simp
  qed
qed

theorem reveal_clicks_witness:
  "wf_items (scenario None) \<and> card (todo (scenario None)) = 1 \<and>
   (\<exists>t. (ui_step ''/a'' ^^ 1) (scenario None) t \<and> all_open t \<and>
        vis_ids t = nav_ids (scenario None))"
proof -
  have "todo (scenario None) = {''b''}"
    by (auto simp: todo_def menu_ids_def open_ids_def scenario_def navigable.simps kids_def
        forest_def nodes.simps)
  then have c: "card (todo (scenario None)) = 1" by simp
  from reveal_clicks [of "scenario None" "''/a''"] show ?thesis
    unfolding c by simp
qed

end
