(* ===== verification/Selectors.thy ===== *)
theory Selectors
  imports Styles
begin

text \<open>
  The part of a browser's style engine that the style sheets of
  \<open>TableOfContentsItems.tsx\<close> rely on. None of it is code of the repository: it is
  the meaning of the selectors that the source writes as strings (\<open>> li ul\<close>,
  \<open>ul, ol\<close>, \<open>&:first-child\<close>) and of the nesting of rules.

  \<open>parse_selector\<close> reads a selector as a list of alternatives, each a path of compound
  selectors joined by the child or the descendant combinator, or a refinement \<open>&\<close> of
  the enclosing selector; \<open>flatten\<close> unfolds the nesting of a sheet into flat rules,
  each with its full selector, and \<open>rules\<close> also expands the shorthands. \<open>matches\<close>
  decides whether a selector selects an element, given the styled element and the
  elements from it down to the selected one. \<open>specificity_of\<close> counts the class and
  pseudo-class selectors, then the type selectors, and specificities are ordered
  lexicographically (an instance of \<open>linorder\<close>). \<open>winner\<close> takes the declaration of
  the highest specificity, the later one among equals.

  What is assumed: every styled element carries one generated class, which \<open>&\<close>
  stands for; the only pseudo-class is \<open>:first-child\<close>; a \<open>padding\<close> or \<open>margin\<close> of
  one value sets the four sides.
\<close>

subsection \<open>Selectors\<close>

datatype combinator = Child | Descendant

datatype compound = Compound (c_tag: string) (c_pseudos: "string list")

type_synonym step = "combinator \<times> compound"

datatype selector = Selector (classes: nat) (self_pseudos: "string list") (steps: "step list")

datatype alt = Refine nat "string list" | Path "step list"

fun split_on :: "char \<Rightarrow> string \<Rightarrow> string list" where
  "split_on c [] = [[]]"
| "split_on c (x # xs) =
     (if x = c then [] # split_on c xs
      else (case split_on c xs of w # ws \<Rightarrow> (x # w) # ws | [] \<Rightarrow> [[x]]))"

definition words_of :: "string \<Rightarrow> string list" where
  "words_of s = filter (\<lambda>w. w \<noteq> []) (split_on CHR '' '' s)"

definition parse_compound :: "string \<Rightarrow> compound" where
  "parse_compound w = (case split_on CHR '':'' w of t # ps \<Rightarrow> Compound t ps | [] \<Rightarrow> Compound w [])"

fun parse_steps :: "string list \<Rightarrow> step list" where
  "parse_steps [] = []"
| "parse_steps [w] = [(Descendant, parse_compound w)]"
| "parse_steps (w # v # ws) =
     (if w = ''>'' then (Child, parse_compound v) # parse_steps ws
      else (Descendant, parse_compound w) # parse_steps (v # ws))"

definition parse_alt :: "string \<Rightarrow> alt" where
  "parse_alt s =
     (case words_of s of
        [w] \<Rightarrow>
          (case parse_compound w of
             Compound t ps \<Rightarrow>
               if t \<noteq> [] \<and> list_all (\<lambda>c. c = CHR ''&'') t then Refine (length t) ps
               else Path (parse_steps [w]))
      | ws \<Rightarrow> Path (parse_steps ws))"

definition parse_selector :: "string \<Rightarrow> alt list" where
  "parse_selector s = map parse_alt (split_on CHR '','' s)"

fun refine_last :: "string list \<Rightarrow> step list \<Rightarrow> step list" where
  "refine_last qs [] = []"
| "refine_last qs [(k, Compound t ps)] = [(k, Compound t (ps @ qs))]"
| "refine_last qs (s # ss) = s # refine_last qs ss"

fun extend :: "selector \<Rightarrow> alt \<Rightarrow> selector" where
  "extend (Selector n ps st) (Path st') = Selector n ps (st @ st')"
| "extend (Selector n ps []) (Refine k qs) = Selector (n + k - 1) (ps @ qs) []"
| "extend (Selector n ps st) (Refine k qs) = Selector (n + k - 1) ps (refine_last qs st)"

fun flatten :: "selector \<Rightarrow> css list \<Rightarrow> (selector \<times> string \<times> string) list" where
  "flatten pre [] = []"
| "flatten pre (Decl p v # cs) = (pre, p, v) # flatten pre cs"
| "flatten pre (Rule s body # cs) =
     concat (map (\<lambda>a. flatten (extend pre a) body) (parse_selector s)) @ flatten pre cs"

subsection \<open>Specificity, matching and the cascade\<close>

datatype specificity = Specificity (sp_classes: nat) (sp_types: nat)

instantiation specificity :: linorder
begin

definition less_eq_specificity :: "specificity \<Rightarrow> specificity \<Rightarrow> bool" where
  "a \<le> b \<longleftrightarrow>
     sp_classes a < sp_classes b \<or> (sp_classes a = sp_classes b \<and> sp_types a \<le> sp_types b)"

definition less_specificity :: "specificity \<Rightarrow> specificity \<Rightarrow> bool" where
  "a < b \<longleftrightarrow>
     sp_classes a < sp_classes b \<or> (sp_classes a = sp_classes b \<and> sp_types a < sp_types b)"

instance
  by standard
    (auto simp: less_eq_specificity_def less_specificity_def intro: specificity.expand)

end

definition specificity_of :: "selector \<Rightarrow> specificity" where
  "specificity_of s =
     Specificity
       (classes s + length (self_pseudos s) + sum_list (map (\<lambda>st. length (c_pseudos (snd st))) (steps s)))
       (length (filter (\<lambda>st. c_tag (snd st) \<noteq> ''*'') (steps s)))"

type_synonym element = "string \<times> bool"

definition holds_pseudo :: "element \<Rightarrow> string \<Rightarrow> bool" where
  "holds_pseudo e q \<longleftrightarrow> q = ''first-child'' \<and> snd e"

fun match_compound :: "compound \<Rightarrow> element \<Rightarrow> bool" where
  "match_compound (Compound t ps) e \<longleftrightarrow>
     (t = fst e \<or> t = ''*'') \<and> list_all (holds_pseudo e) ps"

fun match_steps :: "step list \<Rightarrow> element list \<Rightarrow> bool" where
  "match_steps [] es \<longleftrightarrow> es = []"
| "match_steps (st # sts) [] \<longleftrightarrow> False"
| "match_steps ((Child, c) # sts) (e # es) \<longleftrightarrow> match_compound c e \<and> match_steps sts es"
| "match_steps ((Descendant, c) # sts) (e # es) \<longleftrightarrow>
     (match_compound c e \<and> match_steps sts es) \<or> match_steps ((Descendant, c) # sts) es"

definition matches :: "selector \<Rightarrow> element \<Rightarrow> element list \<Rightarrow> bool" where
  "matches s root es \<longleftrightarrow> list_all (holds_pseudo root) (self_pseudos s) \<and> match_steps (steps s) es"

definition expand_decl :: "string \<Rightarrow> string \<Rightarrow> (string \<times> string) list" where
  "expand_decl p v =
     (if (p = ''padding'' \<or> p = ''margin'') \<and> CHR '' '' \<notin> set v
      then map (\<lambda>side. (p @ ''-'' @ side, v)) [''top'', ''right'', ''bottom'', ''left'']
      else [(p, v)])"

definition rules :: "css list \<Rightarrow> (selector \<times> string \<times> string) list" where
  "rules sheet =
     concat (map (\<lambda>(s, p, v). map (\<lambda>(p', v'). (s, p', v')) (expand_decl p v))
       (flatten (Selector 1 [] []) sheet))"

fun winner :: "(specificity \<times> string) list \<Rightarrow> (specificity \<times> string) option" where
  "winner [] = None"
| "winner (c # cs) =
     (case winner cs of None \<Rightarrow> Some c | Some b \<Rightarrow> if fst b < fst c then Some c else Some b)"

subsection \<open>Lemmas\<close>

lemmas parse_defs =
  parse_selector_def parse_alt_def words_of_def parse_compound_def rules_def expand_decl_def

lemma rules_Nil [simp]: "rules [] = []"
  by (simp add: rules_def)

lemma match_steps_subject:
  "match_steps sts es \<Longrightarrow> sts \<noteq> [] \<Longrightarrow> es \<noteq> [] \<and> match_compound (snd (last sts)) (last es)"
  by (induction sts es rule: match_steps.induct) (auto split: if_splits)

lemma match_descendant:
  "match_steps [(Descendant, c)] es \<longleftrightarrow> es \<noteq> [] \<and> match_compound c (last es)"
  by (induction es) auto

lemma match_child: "match_steps [(Child, c)] es \<longleftrightarrow> (\<exists>e. es = [e] \<and> match_compound c e)"
  by (cases es) auto

lemma match_other_subject:
  assumes "sts \<noteq> []" and "c_tag (snd (last sts)) \<noteq> t" and "c_tag (snd (last sts)) \<noteq> ''*''"
  shows "\<not> match_steps sts (es @ [(t, g)])"
proof
  assume "match_steps sts (es @ [(t, g)])"
  from match_steps_subject [OF this assms(1)] assms(2,3) show False
    by (cases "snd (last sts)") auto
qed

lemma winner_eq_None [simp]: "winner cs = None \<longleftrightarrow> cs = []"
  by (cases cs) (auto split: option.splits)

lemma winner_greatest:
  "winner cs = Some c \<Longrightarrow> c \<in> set cs \<and> (\<forall>d\<in>set cs. fst d \<le> fst c)"
proof (induction cs arbitrary: c)
  case (Cons x cs)
  show ?case
  proof (cases "winner cs")
    case None
    with Cons.prems show ?thesis by simp
  next
    case (Some b)
    from Cons.IH [OF Some] Cons.prems Some show ?thesis
      by (auto split: if_splits)
  qed
qed simp

lemma winner_max:
  assumes "(s, v) \<in> set cs" and "\<forall>c\<in>set cs. fst c < s \<or> c = (s, v)"
  shows "winner cs = Some (s, v)"
proof -
  from assms(1) obtain c where c: "winner cs = Some c" by (cases "winner cs") auto
  from winner_greatest [OF c] assms show ?thesis by (fastforce simp: c)
qed

end
