(* ===== verification/Cascade.thy ===== *)
theory Cascade
  imports Selectors Markup
begin

text \<open>
  The style sheet of the styled list (\<open>List\<close>, lines 122--161 of
  \<open>TableOfContentsItems.tsx\<close>) applied to the renderings of \<open>TableOfContentsItems\<close>.

  \<open>chains\<close> and \<open>item_chains\<close> read the nesting off a rendering: one chain of crumbs
  from the outermost list down to every list, and to every list item, of it.
  \<open>cascaded\<close> is the value a property gets on the last element of a chain, each styled
  list of the chain contributing the rules of its own sheet (\<open>candidates\<close>), in the
  order of nesting. That order decides nothing here: rules of different lists that
  compete with equal specificity declare the same value.

  The rows for links are imported components: they are elements of unknown tag, and
  which list items are the first child of their list is not known from the rendering.
  So the theorems hold for every assignment of first-child flags to the elements of a
  chain. \<open>list_indentation\<close> and \<open>list_spacing\<close> give the indentation and the spacing
  of every list of every rendering in closed form (\<open>indent\<close>), and \<open>item_spacing\<close> the
  space above the list item of every menu (\<open>item_padding\<close>).
\<close>

subsection \<open>Chains of nested lists\<close>

text \<open>
  A crumb is one element on the way from the outermost list down to a list: a styled
  list with its \<open>isTopLevel\<close> and its tag, a list item, or any other element. A chain
  pairs each crumb with whether the element is the first child of its parent.
\<close>

datatype crumb = At_list bool list_tag | At_li | At_other

fun tag_of :: "crumb \<Rightarrow> string" where
  "tag_of (At_list t ol) = ''ol''"
| "tag_of (At_list t ul) = ''ul''"
| "tag_of At_li = ''li''"
| "tag_of At_other = ''''"

fun sheet_of :: "crumb \<Rightarrow> css list" where
  "sheet_of (At_list t a) = List_css (Some t)"
| "sheet_of _ = []"

definition el :: "crumb \<times> bool \<Rightarrow> element" where
  "el cf = (tag_of (fst cf), snd cf)"

fun candidates :: "string \<Rightarrow> (crumb \<times> bool) list \<Rightarrow> (specificity \<times> string) list" where
  "candidates prop [] = []"
| "candidates prop (cf # cfs) =
     map (\<lambda>(s, p, v). (specificity_of s, v))
       (filter (\<lambda>(s, p, v). p = prop \<and> matches s (el cf) (map el cfs))
          (rules (sheet_of (fst cf))))
     @ candidates prop cfs"

definition cascaded :: "string \<Rightarrow> (crumb \<times> bool) list \<Rightarrow> string option" where
  "cascaded prop cfs = map_option snd (winner (candidates prop cfs))"

text \<open>The declarations a styled list makes for itself, by its own class alone.\<close>

definition own :: "string \<Rightarrow> (specificity \<times> string) list" where
  "own prop =
     map (\<lambda>(s, p, v). (specificity_of s, v))
       (filter (\<lambda>(s, p, v). p = prop \<and> steps s = []) (rules (List_css (Some False))))"

fun chains :: "'cb node \<Rightarrow> crumb list list" where
  "chains (List_el c t a ns) = [At_list t a] # map ((#) (At_list t a)) (concat (map chains ns))"
| "chains (li_el ns) = map ((#) At_li) (concat (map chains ns))"
| "chains (TopLevelMenuToggle_el h ns) = map ((#) At_other) (concat (map chains ns))"
| "chains (MenuLink_el h ns) = map ((#) At_other) (concat (map chains ns))"
| "chains (span_el ns) = map ((#) At_other) (concat (map chains ns))"
| "chains _ = []"

text \<open>
  The chains of a rendering have one shape: the outermost list, then a list item and a
  nested list, level by level (\<open>tnest\<close>, and \<open>nest\<close> with the first-child flags).
  \<open>indent\<close> is the indentation in closed form, by the depth and the tag of the list.
\<close>

fun nest :: "(bool \<times> list_tag \<times> bool) list \<Rightarrow> (crumb \<times> bool) list" where
  "nest [] = []"
| "nest ((f, a, g) # lv) = (At_li, f) # (At_list False a, g) # nest lv"

definition indent :: "bool \<Rightarrow> nat \<Rightarrow> list_tag \<Rightarrow> string" where
  "indent is_top d a =
     (if \<not> is_top \<or> d = 0 then ''0''
      else if d = 1 then (if a = ul then ''35px'' else ''20px'')
      else (if a = ul then ''15px'' else ''0''))"

fun tnest :: "list_tag list \<Rightarrow> crumb list" where
  "tnest [] = []"
| "tnest (a # as) = At_li # At_list False a # tnest as"

fun is_list :: "crumb \<Rightarrow> bool" where
  "is_list (At_list t a) = True"
| "is_list _ = False"

definition depth :: "crumb list \<Rightarrow> nat" where
  "depth c = length (filter is_list (butlast c))"

fun crumb_tag :: "crumb \<Rightarrow> list_tag" where
  "crumb_tag (At_list t a) = a"
| "crumb_tag _ = ul"

text \<open>
  The chains that end at a list item, and the space above a list item in closed form,
  by whether the enclosing list is top-level, the number of lists around the item,
  and whether the item is the first child of its list.
\<close>

fun item_chains :: "'cb node \<Rightarrow> crumb list list" where
  "item_chains (List_el c t a ns) = map ((#) (At_list t a)) (concat (map item_chains ns))"
| "item_chains (li_el ns) = [At_li] # map ((#) At_li) (concat (map item_chains ns))"
| "item_chains (TopLevelMenuToggle_el h ns) = map ((#) At_other) (concat (map item_chains ns))"
| "item_chains (MenuLink_el h ns) = map ((#) At_other) (concat (map item_chains ns))"
| "item_chains (span_el ns) = map ((#) At_other) (concat (map item_chains ns))"
| "item_chains _ = []"

definition item_padding :: "bool \<Rightarrow> nat \<Rightarrow> bool \<Rightarrow> string" where
  "item_padding is_top d first =
     (if first then ''0'' else if is_top \<and> d = 1 then ''24px'' else ''12px'')"

text \<open>The candidates every list around a list item contributes for the space above it.\<close>

definition base :: "bool \<Rightarrow> (specificity \<times> string) list" where
  "base g = (Specificity 1 1, ''12px'') # (if g then [(Specificity 2 1, ''0'')] else [])"

subsection \<open>The rules of the list\<close>

lemma rules_List_css_nested:
  "rules (List_css (Some False)) =
     [(Selector 1 [] [], ''list-style-type'', ''none''),
      (Selector 1 [] [], ''padding-top'', ''0''),
      (Selector 1 [] [], ''padding-right'', ''0''),
      (Selector 1 [] [], ''padding-bottom'', ''0''),
      (Selector 1 [] [], ''padding-left'', ''0''),
      (Selector 1 [] [], ''margin-top'', ''0''),
      (Selector 1 [] [], ''margin-right'', ''0''),
      (Selector 1 [] [], ''margin-bottom'', ''0''),
      (Selector 1 [] [], ''margin-left'', ''0''),
      (Selector 1 [] [(Descendant, Compound ''li'' [])], ''padding-top'', ''12px''),
      (Selector 1 [] [(Descendant, Compound ''li'' [''first-child''])], ''padding-top'', ''0'')]"
  by (simp add: List_css_def parse_defs)

lemma rules_List_css_top:
  "rules (List_css (Some True)) =
     rules (List_css (Some False)) @
     [(Selector 1 [] [(Child, Compound ''li'' [])], ''padding-top'', ''24px''),
      (Selector 1 [] [(Child, Compound ''li'' []), (Descendant, Compound ''ul'' [])],
         ''padding-top'', ''12px''),
      (Selector 1 [] [(Child, Compound ''li'' []), (Descendant, Compound ''ul'' [])],
         ''display'', ''flex''),
      (Selector 1 [] [(Child, Compound ''li'' []), (Descendant, Compound ''ul'' [])],
         ''flex-direction'', ''column''),
      (Selector 1 [] [(Child, Compound ''li'' []), (Descendant, Compound ''ol'' [])],
         ''padding-top'', ''12px''),
      (Selector 1 [] [(Child, Compound ''li'' []), (Descendant, Compound ''ol'' [])],
         ''display'', ''flex''),
      (Selector 1 [] [(Child, Compound ''li'' []), (Descendant, Compound ''ol'' [])],
         ''flex-direction'', ''column''),
      (Selector 1 [] [(Child, Compound ''li'' []), (Child, Compound ''ul'' [])],
         ''padding-left'', ''35px''),
      (Selector 1 []
         [(Child, Compound ''li'' []), (Child, Compound ''ul'' []),
          (Child, Compound ''li'' []), (Descendant, Compound ''ul'' [])],
         ''padding-left'', ''15px''),
      (Selector 1 [] [(Child, Compound ''li'' []), (Child, Compound ''ol'' [])],
         ''padding-left'', ''20px'')]"
  by (simp add: List_css_def parse_defs)

subsection \<open>Matching along a chain of nested lists\<close>

lemma nest_eq_Nil [simp]: "nest lv = [] \<longleftrightarrow> lv = []"
  by (cases lv rule: nest.cases) simp_all

lemma last_nest:
  "lv \<noteq> [] \<Longrightarrow> last (map el (nest lv)) = (tag_of (At_list False (fst (snd (last lv)))), snd (snd (last lv)))"
  by (induction lv rule: nest.induct) (auto simp: el_def)

lemma tag_of_list: "tag_of (At_list t a) = (if a = ul then ''ul'' else ''ol'')"
  by (cases a) simp_all

lemma match_li_nest [simp]:
  "\<not> match_steps [(k, Compound ''li'' ps)] (map el (nest lv))"
proof
  assume "match_steps [(k, Compound ''li'' ps)] (map el (nest lv))"
  from match_steps_subject [OF this] show False
    by (auto simp: last_nest tag_of_list split: if_splits)
qed

lemma match_Nil_nest [simp]: "match_steps [] (map el (nest lv)) \<longleftrightarrow> lv = []"
  by simp

lemma match_desc_nest:
  assumes "t \<noteq> ''*''"
  shows "match_steps [(Descendant, Compound t [])] (map el (nest lv)) \<longleftrightarrow>
     lv \<noteq> [] \<and> tag_of (At_list False (fst (snd (last lv)))) = t"
  using assms by (induction lv rule: nest.induct) (auto simp: el_def)

subsection \<open>The cascade on a chain\<close>

lemma own_padding_left [simp]: "own ''padding-left'' = [(Specificity 1 0, ''0'')]"
  by (simp add: own_def rules_List_css_nested specificity_of_def)

lemma nested_rule_matches:
  assumes "(s, p, v) \<in> set (rules (List_css (Some False)))"
  shows "matches s e [] \<longleftrightarrow> steps s = []"
    and "lv \<noteq> [] \<Longrightarrow> \<not> matches s e (map el (nest lv))"
  using assms by (auto simp: rules_List_css_nested matches_def)

lemma nested_candidates:
  "map (\<lambda>(s, p, v). (specificity_of s, v))
     (filter (\<lambda>(s, p, v). p = prop \<and> matches s e (map el (nest lv)))
        (rules (List_css (Some False)))) =
   (if lv = [] then own prop else [])"
proof (cases "lv = []")
  case True
  have "filter (\<lambda>(s, p, v). p = prop \<and> matches s e []) (rules (List_css (Some False))) =
    filter (\<lambda>(s, p, v). p = prop \<and> steps s = []) (rules (List_css (Some False)))"
    by (rule filter_cong) (auto simp: nested_rule_matches(1))
  with True show ?thesis by (simp add: own_def)
next
  case False
  then have "filter (\<lambda>(s, p, v). p = prop \<and> matches s e (map el (nest lv)))
      (rules (List_css (Some False))) = []"
    by (auto simp: filter_empty_conv nested_rule_matches(2))
  with False show ?thesis by simp
qed

lemma candidates_nest:
  "candidates prop (nest lv) = (if lv = [] then [] else own prop)"
  by (induction lv rule: nest.induct) (simp_all add: nested_candidates)

lemma candidates_root_nested:
  "candidates prop ((At_list False a, f) # nest lv) = own prop"
  by (simp add: candidates_nest nested_candidates)

lemma candidates_root_top_padding_left:
  assumes "2 \<le> length lv \<longrightarrow> fst (snd (hd lv)) = ul"
  shows "candidates ''padding-left'' ((At_list True a, f) # nest lv) =
     (case lv of
        [] \<Rightarrow> []
      | [l] \<Rightarrow> [(Specificity 1 2, if fst (snd l) = ul then ''35px'' else ''20px'')]
      | l # l' # lv' \<Rightarrow> if fst (snd (last lv)) = ul then [(Specificity 1 4, ''15px'')] else [])
     @ [(Specificity 1 0, ''0'')]"
proof (cases lv rule: nest.cases)
  case 1
  then show ?thesis
    by (simp add: rules_List_css_top rules_List_css_nested matches_def specificity_of_def)
next
  case (2 f1 a1 g1 lv1)
  show ?thesis
  proof (cases lv1 rule: nest.cases)
    case 1
    with 2 show ?thesis
      by (cases a1)
        (simp_all add: rules_List_css_top rules_List_css_nested matches_def specificity_of_def
          el_def)
  next
    case (2 f2 a2 g2 lv2)
    from 2 \<open>lv = (f1, a1, g1) # lv1\<close> assms have a1: "a1 = ul" by simp
    with 2 \<open>lv = (f1, a1, g1) # lv1\<close> a1 show ?thesis
      by (auto simp: rules_List_css_top rules_List_css_nested matches_def specificity_of_def
          el_def candidates_nest match_desc_nest tag_of_list)
  qed
qed

lemma own_spacing [simp]:
  "own ''padding-top'' = [(Specificity 1 0, ''0'')]"
  "own ''display'' = []"
  "own ''flex-direction'' = []"
  by (simp_all add: own_def rules_List_css_nested specificity_of_def)

lemma candidates_root_top_spacing:
  assumes "lv \<noteq> []"
  shows "candidates ''padding-top'' ((At_list True a, f) # nest lv) =
      [(Specificity 1 2, ''12px''), (Specificity 1 0, ''0'')]"
    and "candidates ''display'' ((At_list True a, f) # nest lv) = [(Specificity 1 2, ''flex'')]"
    and "candidates ''flex-direction'' ((At_list True a, f) # nest lv) =
      [(Specificity 1 2, ''column'')]"
  using assms
  by (cases lv rule: nest.cases;
      (auto simp: rules_List_css_top rules_List_css_nested matches_def specificity_of_def el_def
        candidates_nest match_desc_nest tag_of_list); fail)+

lemma cascaded_spacing:
  "cascaded ''padding-top'' ((At_list t a, f) # nest lv) =
     Some (if t \<and> lv \<noteq> [] then ''12px'' else ''0'')"
  "cascaded ''display'' ((At_list t a, f) # nest lv) =
     (if t \<and> lv \<noteq> [] then Some ''flex'' else None)"
  "cascaded ''flex-direction'' ((At_list t a, f) # nest lv) =
     (if t \<and> lv \<noteq> [] then Some ''column'' else None)"
proof -
  have n: "candidates pr ((At_list t a, f) # nest lv) = own pr" if "\<not> t \<or> lv = []" for pr
  proof (cases t)
    case False
    then show ?thesis by (simp only: candidates_root_nested)
  next
    case True
    with that have "lv = []" by simp
    with True show ?thesis
      by (simp add: own_def rules_List_css_top rules_List_css_nested matches_def)
  qed
  show "cascaded ''padding-top'' ((At_list t a, f) # nest lv) =
     Some (if t \<and> lv \<noteq> [] then ''12px'' else ''0'')"
    "cascaded ''display'' ((At_list t a, f) # nest lv) =
     (if t \<and> lv \<noteq> [] then Some ''flex'' else None)"
    "cascaded ''flex-direction'' ((At_list t a, f) # nest lv) =
     (if t \<and> lv \<noteq> [] then Some ''column'' else None)"
    unfolding cascaded_def
    by (cases "t \<and> lv \<noteq> []";
        (simp add: candidates_root_top_spacing n less_specificity_def del: candidates.simps);
        fail)+
qed

lemma cascaded_padding_left:
  assumes "2 \<le> length lv \<longrightarrow> fst (snd (hd lv)) = ul"
  shows "cascaded ''padding-left'' ((At_list t a, f) # nest lv) =
     Some (indent t (length lv) (if lv = [] then a else fst (snd (last lv))))"
proof (cases t)
  case False
  then show ?thesis
    unfolding cascaded_def by (simp only: candidates_root_nested) (simp add: indent_def)
next
  case True
  then have t: "t = True" by simp
  show ?thesis
    unfolding cascaded_def t candidates_root_top_padding_left [OF assms]
    by (cases lv rule: nest.cases; cases "tl lv" rule: nest.cases)
      (auto simp: indent_def less_specificity_def)
qed

subsection \<open>List items\<close>

lemma nested_item_candidates:
  assumes "es \<noteq> []" and "last es = (''li'', g)"
  shows "map (\<lambda>(s, p, v). (specificity_of s, v))
     (filter (\<lambda>(s, p, v). p = ''padding-top'' \<and> matches s e es)
        (rules (List_css (Some False)))) = base g"
  using assms
  by (simp add: rules_List_css_nested matches_def match_descendant specificity_of_def
      holds_pseudo_def base_def)

lemma candidates_nest_item:
  "candidates ''padding-top'' (nest lv @ [(At_li, g)]) = concat (replicate (length lv) (base g))"
  by (induction lv rule: nest.induct) (simp_all add: nested_item_candidates el_def)

lemma top_item_candidates:
  "map (\<lambda>(s, p, v). (specificity_of s, v))
     (filter (\<lambda>(s, p, v). p = ''padding-top'' \<and> matches s e (map el (nest lv) @ [(''li'', g)]))
        (rules (List_css (Some True)))) =
   base g @ (if lv = [] then [(Specificity 1 1, ''24px'')] else [])"
  unfolding rules_List_css_top
  by (simp add: nested_item_candidates)
    (simp add: matches_def match_child match_other_subject specificity_of_def)

lemma candidates_item:
  "candidates ''padding-top'' ((At_list t a, f) # nest lv @ [(At_li, g)]) =
     base g @ (if t \<and> lv = [] then [(Specificity 1 1, ''24px'')] else [])
     @ concat (replicate (length lv) (base g))"
  by (cases t)
    (simp_all add: candidates_nest_item nested_item_candidates top_item_candidates el_def)

lemma cascaded_item:
  "cascaded ''padding-top'' ((At_list t a, f) # nest lv @ [(At_li, g)]) =
     Some (item_padding t (Suc (length lv)) g)"
proof -
  let ?cs = "candidates ''padding-top'' ((At_list t a, f) # nest lv @ [(At_li, g)])"
  consider (first) g | (top) "\<not> g" "t \<and> lv = []" | (other) "\<not> g" "\<not> (t \<and> lv = [])" by blast
  then show ?thesis
  proof cases
    case first
    then have "winner ?cs = Some (Specificity 2 1, ''0'')"
      unfolding candidates_item
      by (intro winner_max) (auto simp: base_def less_specificity_def)
    with first show ?thesis by (simp add: cascaded_def item_padding_def del: candidates.simps)
  next
    case top
    then show ?thesis
      unfolding cascaded_def candidates_item
      by (simp add: item_padding_def base_def less_specificity_def)
  next
    case other
    then have "winner ?cs = Some (Specificity 1 1, ''12px'')"
      unfolding candidates_item
      by (intro winner_max) (auto simp: base_def less_specificity_def)
    with other show ?thesis by (auto simp: cascaded_def item_padding_def simp del: candidates.simps)
  qed
qed

subsection \<open>The chains of a rendering\<close>

lemma chains_toggle_el [simp]: "chains (toggle_el p) = []"
  by (simp add: toggle_el_def)

lemma chains_entry_el [simp]: "chains (entry_el cp cb r is_top it) = []"
  by (simp add: entry_el_def)

lemma chains_view:
  assumes "c \<in> set (concat (map chains (view cp cb r is_top it)))"
  shows "type it = TMenu \<and> (\<exists>as. as \<noteq> [] \<and> c = tnest as \<and> list_all (\<lambda>a. a = ul) (butlast as))"
  using assms
proof (induction it arbitrary: is_top c rule: Item_kids_induct)
  case (Item it)
  show ?case
  proof (cases "type it")
    case TMenu
    from Item.prems TMenu obtain cs where cs: "children it = Some cs"
      by (cases "children it") (simp_all add: view.simps [of _ _ _ _ it])
    with Item.prems TMenu have op: "truthy (isOpen it)"
      by (auto simp: view.simps [of _ _ _ _ it] split: if_splits)
    let ?a = "if list_all (\<lambda>c. type c = TBulletLink) cs then ol else ul"
    from Item.prems TMenu cs op consider
      (here) "c = tnest [?a]" |
      (deeper) k c' where "k \<in> set (kids it)" "c' \<in> set (concat (map chains (view cp cb r False k)))"
        "c = At_li # At_list False ?a # c'"
      by (auto simp: view.simps [of _ _ _ _ it])
    then show ?thesis
    proof cases
      case here
      with TMenu show ?thesis by (intro conjI exI [of _ "[?a]"]) simp_all
    next
      case deeper
      from Item.IH [OF deeper(1,2)] obtain as where k: "type k = TMenu"
        and as: "as \<noteq> []" "c' = tnest as" "list_all (\<lambda>a. a = ul) (butlast as)"
        by blast
      from k deeper(1) cs have "?a = ul" by (force simp: kids_def list_all_iff)
      with deeper(3) as TMenu show ?thesis
        by (intro conjI exI [of _ "ul # as"]) simp_all
    qed
  qed (use Item.prems in \<open>simp_all add: view.simps [of _ _ _ _ it]\<close>)
qed

lemma chains_view_list:
  assumes "c \<in> set (chains (view_list p))"
  shows "\<exists>a as. c = At_list (truthy (isTopLevel p)) a # tnest as \<and>
     list_all (\<lambda>a. a = ul) (butlast (a # as))"
proof -
  let ?a = "if list_all (\<lambda>c. type c = TBulletLink) (items p) then ol else ul"
  let ?v = "view (currentPath p) (setMenuOpenStateById p) (rest p) (truthy (isTopLevel p))"
  from assms consider
    (here) "c = [At_list (truthy (isTopLevel p)) ?a]" |
    (deeper) k c' where "k \<in> set (items p)" "c' \<in> set (concat (map chains (?v k)))"
      "c = At_list (truthy (isTopLevel p)) ?a # c'"
    by (auto simp: view_list_def)
  then show ?thesis
  proof cases
    case here
    then show ?thesis by (intro exI [of _ ?a] exI [of _ "[]"]) simp
  next
    case deeper
    from chains_view [OF deeper(2)] obtain as where k: "type k = TMenu"
      and as: "as \<noteq> []" "c' = tnest as" "list_all (\<lambda>a. a = ul) (butlast as)"
      by blast
    from k deeper(1) have "?a = ul" by (force simp: list_all_iff)
    with deeper(3) as show ?thesis
      by (intro exI [of _ ul] exI [of _ as]) simp
  qed
qed

lemma nest_of_tnest:
  "map fst cfs = tnest as \<Longrightarrow> \<exists>lv. cfs = nest lv \<and> map (\<lambda>l. fst (snd l)) lv = as"
proof (induction as arbitrary: cfs)
  case Nil
  then show ?case by (intro exI [of _ "[]"]) simp
next
  case (Cons a as)
  then obtain f g cfs' where cfs: "cfs = (At_li, f) # (At_list False a, g) # cfs'"
    and "map fst cfs' = tnest as"
    by (auto simp: map_eq_Cons_conv)
  with Cons.IH obtain lv where "cfs' = nest lv" "map (\<lambda>l. fst (snd l)) lv = as" by blast
  with cfs show ?case by (intro exI [of _ "(f, a, g) # lv"]) simp
qed

lemma tnest_eq_Nil [simp]: "tnest as = [] \<longleftrightarrow> as = []"
  by (cases as) simp_all

lemma lists_butlast_tnest:
  "as \<noteq> [] \<Longrightarrow> length (filter is_list (butlast (tnest as))) = length as - 1"
  by (induction as) auto

lemma depth_tnest [simp]: "depth (At_list t a # tnest as) = length as"
  by (cases "as = []") (simp_all add: depth_def lists_butlast_tnest)

lemma last_tnest [simp]: "as \<noteq> [] \<Longrightarrow> crumb_tag (last (tnest as)) = last as"
  by (induction as) auto

lemma chain_decompose:
  assumes "c \<in> set (chains (view_list p))" and "map fst cfs = c"
  obtains a f lv where "cfs = (At_list (truthy (isTopLevel p)) a, f) # nest lv"
    and "depth c = length lv"
    and "crumb_tag (last c) = (if lv = [] then a else fst (snd (last lv)))"
    and "2 \<le> length lv \<longrightarrow> fst (snd (hd lv)) = ul"
proof -
  from chains_view_list [OF assms(1)] obtain a as
    where c: "c = At_list (truthy (isTopLevel p)) a # tnest as"
      and u: "list_all (\<lambda>a. a = ul) (butlast (a # as))"
    by blast
  from assms(2) c obtain f cfs' where cfs: "cfs = (At_list (truthy (isTopLevel p)) a, f) # cfs'"
    and "map fst cfs' = tnest as"
    by (auto simp: map_eq_Cons_conv)
  then obtain lv where lv: "cfs' = nest lv" "map (\<lambda>l. fst (snd l)) lv = as"
    using nest_of_tnest by blast
  have "fst (snd (hd lv)) = ul" if "2 \<le> length lv"
  proof -
    from that obtain l l' lv' where "lv = l # l' # lv'"
      by (cases lv rule: nest.cases; cases "tl lv") auto
    with u lv(2) show ?thesis by auto
  qed
  moreover from lv(2) have "length lv = length as" "lv = [] \<longleftrightarrow> as = []"
    "lv \<noteq> [] \<Longrightarrow> fst (snd (last lv)) = last as"
    by (auto simp: last_map)
  ultimately show thesis using cfs lv(1) by (intro that [of a f lv]) (auto simp: c)
qed

text \<open>
  C10. The indentation of every list of a rendering, as the browser computes it from the
  style sheets of the lists around it: none for the outermost list; \<open>35px\<close> for an
  unordered and \<open>20px\<close> for an ordered list directly below an entry of a top-level list;
  \<open>15px\<close> for every deeper unordered list, and none for a deeper ordered one. Below a
  list that is not top-level nothing is indented. The result does not depend on the
  position of any list item among its siblings.
\<close>

theorem list_indentation:
  assumes "render (TableOfContentsItems_el p) = Inr ds" and "d \<in> set ds"
    and "c \<in> set (chains d)" and "map fst cfs = c"
  shows "cascaded ''padding-left'' cfs =
     Some (indent (truthy (isTopLevel p)) (depth c) (crumb_tag (last c)))"
proof -
  from render_Inr_view_list [OF assms(1)] assms(2,3) have "c \<in> set (chains (view_list p))"
    by simp
  from this assms(4) show ?thesis
    by (rule chain_decompose) (simp add: cascaded_padding_left)
qed

theorem list_indentation_witness:
  "render (TableOfContentsItems_el (scenario_props (Some True))) =
     Inr [view_list (scenario_props (Some True))] \<and>
   chains (view_list (scenario_props (Some True))) =
     [[At_list True ul], [At_list True ul, At_li, At_list False ul]] \<and>
   cascaded ''padding-left'' [(At_list True ul, True), (At_li, False), (At_list False ul, False)] =
     Some ''35px''"
proof -
  have c: "chains (view_list (scenario_props (Some True))) =
      [[At_list True ul], [At_list True ul, At_li, At_list False ul]]"
    by (simp add: view_list_def scenario_def view.simps kids_def)
  from list_indentation [OF render_scenario [of "Some True"], of
      "view_list (scenario_props (Some True))" "[At_list True ul, At_li, At_list False ul]"
      "[(At_list True ul, True), (At_li, False), (At_list False ul, False)]"] c
  show ?thesis by (simp add: render_scenario depth_def indent_def)
qed

text \<open>
  C26. The spacing of every list of a rendering: a list nested below a top-level list
  is laid out as a column with \<open>12px\<close> above it; the outermost list, and every list
  below a list that is not top-level, has no padding above and no layout of its own.
\<close>

theorem list_spacing:
  assumes "render (TableOfContentsItems_el p) = Inr ds" and "d \<in> set ds"
    and "c \<in> set (chains d)" and "map fst cfs = c"
  shows "cascaded ''padding-top'' cfs =
       Some (if truthy (isTopLevel p) \<and> 0 < depth c then ''12px'' else ''0'') \<and>
     cascaded ''display'' cfs =
       (if truthy (isTopLevel p) \<and> 0 < depth c then Some ''flex'' else None) \<and>
     cascaded ''flex-direction'' cfs =
       (if truthy (isTopLevel p) \<and> 0 < depth c then Some ''column'' else None)"
proof -
  from render_Inr_view_list [OF assms(1)] assms(2,3) have "c \<in> set (chains (view_list p))"
    by simp
  from this assms(4) show ?thesis
    by (rule chain_decompose) (simp add: cascaded_spacing)
qed

theorem list_spacing_witness:
  "render (TableOfContentsItems_el (scenario_props (Some True))) =
     Inr [view_list (scenario_props (Some True))] \<and>
   cascaded ''padding-top'' [(At_list True ul, True), (At_li, False), (At_list False ul, False)] =
     Some ''12px'' \<and>
   cascaded ''display'' [(At_list True ul, True), (At_li, False), (At_list False ul, False)] =
     Some ''flex''"
proof -
  have c: "chains (view_list (scenario_props (Some True))) =
      [[At_list True ul], [At_list True ul, At_li, At_list False ul]]"
    by (simp add: view_list_def scenario_def view.simps kids_def)
  from list_spacing [OF render_scenario [of "Some True"], of
      "view_list (scenario_props (Some True))" "[At_list True ul, At_li, At_list False ul]"
      "[(At_list True ul, True), (At_li, False), (At_list False ul, False)]"] c
  show ?thesis by (simp add: render_scenario depth_def)
qed

subsection \<open>The list items of a rendering\<close>

lemma item_chains_toggle_el [simp]: "item_chains (toggle_el p) = []"
  by (simp add: toggle_el_def)

lemma item_chains_entry_el [simp]: "item_chains (entry_el cp cb r is_top it) = []"
  by (simp add: entry_el_def)

lemma item_chains_view:
  assumes "c \<in> set (concat (map item_chains (view cp cb r is_top it)))"
  shows "\<exists>as. c = tnest as @ [At_li]"
  using assms
proof (induction it arbitrary: is_top c rule: Item_kids_induct)
  case (Item it)
  show ?case
  proof (cases "type it")
    case TMenu
    from Item.prems TMenu obtain cs where cs: "children it = Some cs"
      by (cases "children it") (simp_all add: view.simps [of _ _ _ _ it])
    from Item.prems TMenu cs consider
      (here) "c = [At_li]" |
      (deeper) k c' a where "k \<in> set (kids it)"
        "c' \<in> set (concat (map item_chains (view cp cb r False k)))"
        "c = At_li # At_list False a # c'"
      by (auto simp: view.simps [of _ _ _ _ it] split: if_splits)
    then show ?thesis
    proof cases
      case here
      then show ?thesis by (intro exI [of _ "[]"]) simp
    next
      case deeper
      from Item.IH [OF deeper(1,2)] obtain as where "c' = tnest as @ [At_li]" by blast
      with deeper(3) show ?thesis by (intro exI [of _ "a # as"]) simp
    qed
  qed (use Item.prems in \<open>simp_all add: view.simps [of _ _ _ _ it]\<close>)
qed

lemma item_chains_view_list:
  assumes "c \<in> set (item_chains (view_list p))"
  shows "\<exists>a as. c = At_list (truthy (isTopLevel p)) a # tnest as @ [At_li]"
proof -
  from assms obtain k c' a where "c = At_list (truthy (isTopLevel p)) a # c'"
    and "c' \<in> set (concat (map item_chains
      (view (currentPath p) (setMenuOpenStateById p) (rest p) (truthy (isTopLevel p)) k)))"
    by (auto simp: view_list_def)
  with item_chains_view [OF this(2)] show ?thesis by blast
qed

lemma lists_tnest [simp]: "length (filter is_list (tnest as)) = length as"
  by (induction as) simp_all

lemma item_chain_decompose:
  assumes "c \<in> set (item_chains (view_list p))" and "map fst cfs = c"
  obtains a f lv where
    "cfs = (At_list (truthy (isTopLevel p)) a, f) # nest lv @ [(At_li, snd (last cfs))]"
    and "depth c = Suc (length lv)"
proof -
  from item_chains_view_list [OF assms(1)] obtain a as
    where c: "c = At_list (truthy (isTopLevel p)) a # tnest as @ [At_li]"
    by blast
  with assms(2) obtain f mid g
    where cfs: "cfs = (At_list (truthy (isTopLevel p)) a, f) # mid @ [(At_li, g)]"
      and "map fst mid = tnest as"
    by (auto simp: map_eq_Cons_conv map_eq_append_conv)
  then obtain lv where lv: "mid = nest lv" "map (\<lambda>l. fst (snd l)) lv = as"
    using nest_of_tnest by blast
  from lv(2) have "length lv = length as" by auto
  with cfs lv(1) show thesis by (intro that [of a f lv]) (simp_all add: c depth_def)
qed

text \<open>
  C15. The space above the list item of every menu of a rendering: none above an item
  that is the first child of its list, \<open>24px\<close> above any other item of the outermost
  list when that list is top-level, and \<open>12px\<close> above every other item. Where two
  rules of the same specificity compete (\<open>li\<close> and \<open>> li\<close>), the later one wins.
\<close>

theorem item_spacing:
  assumes "render (TableOfContentsItems_el p) = Inr ds" and "d \<in> set ds"
    and "c \<in> set (item_chains d)" and "map fst cfs = c"
  shows "cascaded ''padding-top'' cfs =
     Some (item_padding (truthy (isTopLevel p)) (depth c) (snd (last cfs)))"
proof -
  from render_Inr_view_list [OF assms(1)] assms(2,3)
  have "c \<in> set (item_chains (view_list p))" by simp
  from this assms(4) obtain a f lv where
    cfs: "cfs = (At_list (truthy (isTopLevel p)) a, f) # nest lv @ [(At_li, snd (last cfs))]"
    and d: "depth c = Suc (length lv)"
    by (rule item_chain_decompose)
  from cascaded_item [of "truthy (isTopLevel p)" a f lv "snd (last cfs)"] show ?thesis
    unfolding d cfs [symmetric] .
qed

theorem item_spacing_witness:
  "render (TableOfContentsItems_el (scenario_props (Some True))) =
     Inr [view_list (scenario_props (Some True))] \<and>
   item_chains (view_list (scenario_props (Some True))) = [[At_list True ul, At_li]] \<and>
   cascaded ''padding-top'' [(At_list True ul, True), (At_li, False)] = Some ''24px''"
proof -
  have c: "item_chains (view_list (scenario_props (Some True))) = [[At_list True ul, At_li]]"
    by (simp add: view_list_def scenario_def view.simps kids_def)
  from item_spacing [OF render_scenario [of "Some True"], of
      "view_list (scenario_props (Some True))" "[At_list True ul, At_li]"
      "[(At_list True ul, True), (At_li, False)]"] c
  show ?thesis by (simp add: render_scenario depth_def item_padding_def)
qed

end
