(* ===== verification/Instances.thy ===== *)
theory Instances
  imports Render
begin

text \<open>
  What React keeps between two renderings. \<open>render\<close> gives the elements that reach the
  page; \<open>mount\<close> gives the tree of instances behind them: one instance for every element
  that was rendered, component elements included, with the instances of what it
  rendered below it, and an empty place (\<open>Hole\<close>) where a child was \<open>null\<close> or \<open>false\<close>,
  so that the children after it keep their positions. Like \<open>render\<close>, \<open>mount\<close> is
  written from the documented behaviour of the library and terminates by the measure
  \<open>weight\<close>.

  \<open>page\<close> reads the elements on the page off a tree of instances; \<open>mount_render\<close> says
  that this is what \<open>render\<close> computes, failures included. \<open>toc_inst\<close> and \<open>entry_inst\<close>
  describe the tree of instances of a list by recursion over the entries, the way
  \<open>view_list\<close> describes its rendering.
\<close>

datatype 'cb inst = Inst (elem: "'cb node") (subs: "'cb inst list") | Hole

definition inst_of :: "'cb node \<Rightarrow> 'cb inst result list \<Rightarrow> 'cb inst result" where
  "inst_of e rs = (case all_ok rs of Inl err \<Rightarrow> Inl err | Inr js \<Rightarrow> Inr (Inst e js))"

function mount :: "'cb node \<Rightarrow> 'cb inst result" where
  "mount (ItemComponent_el None k p) = Inl InvalidElementType"
| "mount (ItemComponent_el (Some MenuC) k p) =
     inst_of (ItemComponent_el (Some MenuC) k p) [mount (Menu (Menu_defaultProps p))]"
| "mount (ItemComponent_el (Some ItemLinkC) k p) =
     Inr (Inst (ItemComponent_el (Some ItemLinkC) k p) [])"
| "mount (ItemComponent_el (Some BulletLinkC) k p) =
     Inr (Inst (ItemComponent_el (Some BulletLinkC) k p) [])"
| "mount (TableOfContentsItems_el p) =
     inst_of (TableOfContentsItems_el p)
       [mount (TableOfContentsItems (TableOfContentsItems_defaultProps p))]"
| "mount (List_el c t a ns) = inst_of (List_el c t a ns) (map mount ns)"
| "mount (li_el ns) = inst_of (li_el ns) (map mount ns)"
| "mount (TopLevelMenuToggle_el h ns) = inst_of (TopLevelMenuToggle_el h ns) (map mount ns)"
| "mount (MenuLink_el h ns) = inst_of (MenuLink_el h ns) (map mount ns)"
| "mount (span_el ns) = inst_of (span_el ns) (map mount ns)"
| "mount (ArrowIcon_el o1 o2) = Inr (Inst (ArrowIcon_el o1 o2) [])"
| "mount (Text s) = Inr (Inst (Text s) [])"
| "mount Nothing = Inr Hole"
  by pat_completeness auto
termination
  by (relation "measure weight")
    (auto simp: weight_Menu weight_TableOfContentsItems member_less_Suc_sum_list)

declare mount.simps(2,5) [simp del]

lemmas mount_component = mount.simps(2,5)

text \<open>The elements an instance puts on the page, and all the instances of a tree.\<close>

fun page :: "'cb inst \<Rightarrow> 'cb node list" where
  "page Hole = []"
| "page (Inst (ItemComponent_el (Some MenuC) k p) js) = concat (map page js)"
| "page (Inst (TableOfContentsItems_el p) js) = concat (map page js)"
| "page (Inst (List_el c t a ns) js) = [List_el c t a (concat (map page js))]"
| "page (Inst (li_el ns) js) = [li_el (concat (map page js))]"
| "page (Inst (TopLevelMenuToggle_el h ns) js) = [TopLevelMenuToggle_el h (concat (map page js))]"
| "page (Inst (MenuLink_el h ns) js) = [MenuLink_el h (concat (map page js))]"
| "page (Inst (span_el ns) js) = [span_el (concat (map page js))]"
| "page (Inst e js) = [e]"

fun insts :: "'cb inst \<Rightarrow> 'cb node list" where
  "insts Hole = []"
| "insts (Inst e js) = e # concat (map insts js)"

text \<open>
  The reference: the instances of an element without components (\<open>host_inst\<close>), of one
  entry (\<open>entry_inst\<close>), of the nested list of a menu (\<open>nested_inst\<close>) and of a list
  (\<open>toc_inst\<close>).
\<close>

abbreviation menu_props ::
  "string \<Rightarrow> 'cb option \<Rightarrow> (string \<times> string) list \<Rightarrow> bool \<Rightarrow> Item \<Rightarrow> 'cb MenuProps" where
  "menu_props cp cb r t it \<equiv>
     \<lparr>currentPath = cp, isTopLevel = Some t, setMenuOpenStateById = cb, rest = r, item = it\<rparr>"

abbreviation nested_props ::
  "string \<Rightarrow> 'cb option \<Rightarrow> (string \<times> string) list \<Rightarrow> Item list
     \<Rightarrow> 'cb TableOfContentsItemsProps" where
  "nested_props cp cb r cs \<equiv>
     \<lparr>currentPath = cp, isTopLevel = Some False, setMenuOpenStateById = cb, rest = r,
      className = None, items = cs\<rparr>"

fun host_inst :: "'cb node \<Rightarrow> 'cb inst" where
  "host_inst Nothing = Hole"
| "host_inst n = Inst n (map host_inst (child_nodes n))"

definition list_inst :: "'cb TableOfContentsItemsProps \<Rightarrow> 'cb inst list \<Rightarrow> 'cb inst" where
  "list_inst p js =
     Inst (TableOfContentsItems_el p)
       [Inst (TableOfContentsItems (TableOfContentsItems_defaultProps p)) js]"

fun entry_inst ::
  "string \<Rightarrow> 'cb option \<Rightarrow> (string \<times> string) list \<Rightarrow> bool \<Rightarrow> Item \<Rightarrow> 'cb inst" where
  "entry_inst cp cb r is_top it =
     Inst (entry_el cp cb r is_top it)
       (if type it = TMenu
        then [case children it of
                None \<Rightarrow> Hole
              | Some cs \<Rightarrow>
                  Inst (Menu (menu_props cp cb r is_top it))
                    [host_inst (toggle_el (menu_props cp cb r is_top it)),
                     if truthy (isOpen it)
                     then list_inst (nested_props cp cb r cs)
                            (map (entry_inst cp cb r False) (kids it))
                     else Hole]]
        else [])"

declare entry_inst.simps [simp del]

definition toc_inst :: "'cb TableOfContentsItemsProps \<Rightarrow> 'cb inst" where
  "toc_inst p =
     list_inst p
       (map (entry_inst (currentPath p) (setMenuOpenStateById p) (rest p) (truthy (isTopLevel p)))
          (items p))"

definition nested_inst ::
  "string \<Rightarrow> 'cb option \<Rightarrow> (string \<times> string) list \<Rightarrow> Item \<Rightarrow> 'cb inst" where
  "nested_inst cp cb r it =
     (if truthy (isOpen it) then toc_inst (nested_props cp cb r (kids it)) else Hole)"

subsection \<open>The instances and the page\<close>

lemma inst_of_render:
  assumes "\<And>n. n \<in> set ns \<Longrightarrow> map_sum id page (mount n) = render n"
    and "\<And>js. page (Inst e js) = [f (concat (map page js))]"
  shows "map_sum id page (inst_of e (map mount ns)) = wrap f (collect (map render ns))"
proof -
  from assms(1) have "map render ns = map (map_sum id page) (map mount ns)" by simp
  then have "collect (map render ns) =
      map_sum id (\<lambda>js. concat (map page js)) (all_ok (map mount ns))"
    by (simp only: all_ok_collect)
  with assms(2) show ?thesis
    by (cases "all_ok (map mount ns)") (simp_all add: inst_of_def)
qed

lemma mount_render: "map_sum id page (mount n) = render n"
proof (induction n rule: render.induct)
  case (2 k p)
  then show ?case
    by (cases "mount (Menu (Menu_defaultProps p))")
      (auto simp: mount_component render_component inst_of_def)
next
  case (5 p)
  then show ?case
    by (cases "mount (TableOfContentsItems (TableOfContentsItems_defaultProps p))")
      (auto simp: mount_component render_component inst_of_def)
next
  case (6 c t a ns)
  show ?case unfolding mount.simps render.simps by (rule inst_of_render [OF 6]) simp_all
next
  case (7 ns)
  show ?case unfolding mount.simps render.simps by (rule inst_of_render [OF 7]) simp_all
next
  case (8 h ns)
  show ?case unfolding mount.simps render.simps by (rule inst_of_render [OF 8]) simp_all
next
  case (9 h ns)
  show ?case unfolding mount.simps render.simps by (rule inst_of_render [OF 9]) simp_all
next
  case (10 ns)
  show ?case unfolding mount.simps render.simps by (rule inst_of_render [OF 10]) simp_all
qed simp_all

subsection \<open>The instances against the reference\<close>

lemma entry_inst_cases:
  "type it \<noteq> TMenu \<Longrightarrow> entry_inst cp cb r t it = Inst (entry_el cp cb r t it) []"
  "type it = TMenu \<Longrightarrow> children it = None \<Longrightarrow>
     entry_inst cp cb r t it = Inst (entry_el cp cb r t it) [Hole]"
  "type it = TMenu \<Longrightarrow> children it = Some cs \<Longrightarrow>
     entry_inst cp cb r t it =
       Inst (entry_el cp cb r t it)
         [Inst (Menu (menu_props cp cb r t it))
            [host_inst (toggle_el (menu_props cp cb r t it)), nested_inst cp cb r it]]"
  by (simp_all add: entry_inst.simps [of _ _ _ _ it] nested_inst_def toc_inst_def kids_def)

lemma mount_toggle_el [simp]: "mount (toggle_el p) = Inr (host_inst (toggle_el p))"
  by (simp add: toggle_el_def inst_of_def)

lemma mount_TableOfContentsItems_el:
  "mount (TableOfContentsItems_el p) =
     (case all_ok (map (\<lambda>it. mount (entry_el (currentPath p) (setMenuOpenStateById p) (rest p)
                                  (truthy (isTopLevel p)) it)) (items p)) of
        Inl e \<Rightarrow> Inl e
      | Inr js \<Rightarrow> Inr (list_inst p js))"
  by (simp add: mount_component TableOfContentsItems_entry_el inst_of_def list_inst_def comp_def
      split: sum.splits)

lemma mount_Menu:
  "mount (Menu p) =
     (case children (item p) of
        None \<Rightarrow> Inr Hole
      | Some cs \<Rightarrow>
          inst_of (Menu p)
            [Inr (host_inst (toggle_el p)),
             if truthy (isOpen (item p))
             then mount (TableOfContentsItems_el
                    (nested_props (currentPath p) (setMenuOpenStateById p) (rest p) cs))
             else Inr Hole])"
  by (cases "children (item p)") (simp_all add: Menu_toggle_el)

lemma mount_entry_el_type:
  "type it = TMenu \<Longrightarrow>
     mount (entry_el cp cb r is_top it) =
       inst_of (entry_el cp cb r is_top it) [mount (Menu (menu_props cp cb r is_top it))]"
  "type it = TLink \<Longrightarrow>
     mount (entry_el cp cb r is_top it) = Inr (Inst (entry_el cp cb r is_top it) [])"
  "type it = TBulletLink \<Longrightarrow>
     mount (entry_el cp cb r is_top it) = Inr (Inst (entry_el cp cb r is_top it) [])"
  "type it = TOther s \<Longrightarrow> mount (entry_el cp cb r is_top it) = Inl InvalidElementType"
  by (simp_all add: entry_el_def mount_component)

lemma mount_menu_entry:
  assumes "type it = TMenu" and "children it = Some cs"
    and "all_ok (map (\<lambda>c. mount (entry_el cp cb r False c)) cs) =
      (if list_all (\<lambda>c. list_all (\<lambda>e. recognised (type e)) (shown c)) cs
       then Inr (map (entry_inst cp cb r False) cs) else Inl InvalidElementType)"
  shows "mount (entry_el cp cb r is_top it) =
     (if list_all (\<lambda>e. recognised (type e)) (shown it)
      then Inr (entry_inst cp cb r is_top it) else Inl InvalidElementType)"
proof -
  from assms(2) have "kids it = cs" by (simp add: kids_def)
  with assms show ?thesis
    by (simp add: mount_entry_el_type mount_Menu mount_TableOfContentsItems_el inst_of_def
        shown_eq [of it] visible_def list_all_concat_map entry_inst.simps [of _ _ _ _ it])
qed

lemma mount_entry_el:
  "mount (entry_el cp cb r is_top it) =
     (if list_all (\<lambda>e. recognised (type e)) (shown it)
      then Inr (entry_inst cp cb r is_top it) else Inl InvalidElementType)"
proof (induction it arbitrary: is_top rule: Item_kids_induct)
  case (Item it)
  show ?case
  proof (cases "type it")
    case TMenu
    show ?thesis
    proof (cases "children it")
      case None
      with TMenu show ?thesis
        by (simp add: mount_entry_el_type mount_Menu inst_of_def shown_eq [of it]
            entry_inst.simps [of _ _ _ _ it])
    next
      case (Some cs)
      then have kids: "kids it = cs" by (simp add: kids_def)
      have "all_ok (map (\<lambda>c. mount (entry_el cp cb r False c)) cs) =
          (if list_all (\<lambda>c. list_all (\<lambda>e. recognised (type e)) (shown c)) cs
           then Inr (map (entry_inst cp cb r False) cs) else Inl InvalidElementType)"
        by (rule all_ok_map_if) (simp add: Item.IH kids)
      with TMenu Some show ?thesis by (rule mount_menu_entry)
    qed
  next
    case (TOther s)
    then show ?thesis by (simp add: mount_entry_el_type shown_eq [of it])
  qed (simp_all add: mount_entry_el_type shown_eq [of it] entry_inst.simps [of _ _ _ _ it])
qed

lemma mount_toc_inst:
  "mount (TableOfContentsItems_el p) =
     (if list_all (\<lambda>e. recognised (type e)) (visible (items p))
      then Inr (toc_inst p) else Inl InvalidElementType)"
proof -
  have "all_ok (map (\<lambda>it. mount (entry_el (currentPath p) (setMenuOpenStateById p) (rest p)
                                  (truthy (isTopLevel p)) it)) (items p)) =
        (if list_all (\<lambda>it. list_all (\<lambda>e. recognised (type e)) (shown it)) (items p)
         then Inr (map (entry_inst (currentPath p) (setMenuOpenStateById p) (rest p)
                 (truthy (isTopLevel p))) (items p))
         else Inl InvalidElementType)"
    by (rule all_ok_map_if) (simp add: mount_entry_el)
  then show ?thesis
    by (simp add: mount_TableOfContentsItems_el toc_inst_def visible_def list_all_concat_map)
qed

lemma page_toc_inst:
  assumes "list_all (\<lambda>e. recognised (type e)) (visible (items p))"
  shows "page (toc_inst p) = [view_list p]"
  using mount_render [of "TableOfContentsItems_el p"] assms
  by (simp add: mount_toc_inst render_view_list)

text \<open>
  C21. The tree of instances refines the rendering. Mounting a list fails exactly when
  rendering it fails; otherwise it yields the tree that the reference \<open>toc_inst\<close>
  describes by recursion over the entries, with one instance for each entry of every
  list that is shown, a place kept for the nested list of a closed menu, and nothing
  below a link; and the elements this tree puts on the page are the rendering.
\<close>

theorem mount_refines_render:
  "mount (TableOfContentsItems_el p) =
     (if list_all (\<lambda>e. recognised (type e)) (visible (items p))
      then Inr (toc_inst p) else Inl InvalidElementType) \<and>
   map_sum id page (mount (TableOfContentsItems_el p)) = render (TableOfContentsItems_el p)"
  by (rule conjI [OF mount_toc_inst mount_render])

end
