(* ===== verification/Reconcile.thy ===== *)
theory Reconcile
  imports Instances Owner Markup
begin

text \<open>
  What React does to the page when a list is rendered again. The library compares the
  new elements with the instances it kept (theory \<open>Instances\<close>): an instance whose
  element has the same type and key is kept and updated, and its children are compared
  in turn; otherwise the old instance is removed with everything below it and a new
  one is created. Among the children of one element a child with a key is compared
  with the old child of the same key, a child without a key with the old child at the
  same position. \<open>reconcile\<close> is this comparison, written from the documented behaviour
  of the library; it returns the list of effects. The source gives keys in one place:
  the elements of a list are keyed by the title of their entry (line 187).

  The documentation asks for keys that are unique among siblings and leaves the
  outcome open otherwise. \<open>partner\<close> takes the first old child with the key, and the
  theorems assume that sibling titles are distinct (\<open>keyed_items\<close>); \<open>wf_items\<close> does
  not imply it, since it speaks of identifiers only.

  The type of an element is its component or its tag; for the styled list it is the
  tag chosen by \<open>as\<close>, so that a list that changes between \<open>ul\<close> and \<open>ol\<close> counts as
  replaced, as its element on the page is.

  The main theorem, \<open>click_reconciled\<close>, is about the rendering that follows a click:
  nothing is created or removed but the instances of the nested list of the clicked
  menu, so every other element of the page, the clicked toggle included, survives.
\<close>

subsection \<open>Comparing two trees of instances\<close>

datatype etype =
    E_component "component option" | E_toc | E_list list_tag | E_li | E_toggle | E_menu_link
  | E_span | E_arrow | E_text | E_nothing

fun etype_of :: "'cb node \<Rightarrow> etype" where
  "etype_of (ItemComponent_el c k p) = E_component c"
| "etype_of (TableOfContentsItems_el p) = E_toc"
| "etype_of (List_el c t a ns) = E_list a"
| "etype_of (li_el ns) = E_li"
| "etype_of (TopLevelMenuToggle_el h ns) = E_toggle"
| "etype_of (MenuLink_el h ns) = E_menu_link"
| "etype_of (span_el ns) = E_span"
| "etype_of (ArrowIcon_el o1 o2) = E_arrow"
| "etype_of (Text s) = E_text"
| "etype_of Nothing = E_nothing"

fun ikey :: "'cb inst \<Rightarrow> string list" where
  "ikey Hole = []"
| "ikey (Inst e js) = key_of e"

datatype 'cb effect = Mounted "'cb node" | Unmounted "'cb node" | Updated "'cb node" "'cb node"

definition partner :: "'cb inst list \<Rightarrow> nat \<Rightarrow> 'cb inst \<Rightarrow> 'cb inst" where
  "partner olds i n =
     (if ikey n = []
      then (if i < length olds \<and> ikey (olds ! i) = [] then olds ! i else Hole)
      else (case find (\<lambda>old. ikey old = ikey n) olds of None \<Rightarrow> Hole | Some old \<Rightarrow> old))"

definition leftover :: "'cb inst list \<Rightarrow> 'cb inst list \<Rightarrow> 'cb inst list" where
  "leftover olds news =
     map snd
       (filter (\<lambda>(j, old). if ikey old = [] then length news \<le> j \<or> ikey (news ! j) \<noteq> []
                            else ikey old \<notin> set (map ikey news))
          (enumerate 0 olds))"

fun reconcile :: "'cb inst \<Rightarrow> 'cb inst \<Rightarrow> 'cb effect list"
  and reconcile_subs :: "'cb inst list \<Rightarrow> nat \<Rightarrow> 'cb inst list \<Rightarrow> 'cb effect list" where
  "reconcile old Hole = map Unmounted (insts old)"
| "reconcile Hole (Inst e' js') = map Mounted (insts (Inst e' js'))"
| "reconcile (Inst e js) (Inst e' js') =
     (if etype_of e = etype_of e' \<and> key_of e = key_of e'
      then Updated e e' # reconcile_subs js 0 js'
             @ map Unmounted (concat (map insts (leftover js js')))
      else map Unmounted (insts (Inst e js)) @ map Mounted (insts (Inst e' js')))"
| "reconcile_subs olds i [] = []"
| "reconcile_subs olds i (n # ns) =
     reconcile (partner olds i n) n @ reconcile_subs olds (Suc i) ns"

text \<open>What a list of effects creates, removes, and leaves on the page.\<close>

fun mounted_of :: "'cb effect \<Rightarrow> 'cb node list" where
  "mounted_of (Mounted e) = [e]"
| "mounted_of _ = []"

fun unmounted_of :: "'cb effect \<Rightarrow> 'cb node list" where
  "unmounted_of (Unmounted e) = [e]"
| "unmounted_of _ = []"

fun target_of :: "'cb effect \<Rightarrow> 'cb node list" where
  "target_of (Mounted e) = [e]"
| "target_of (Updated e e') = [e']"
| "target_of (Unmounted e) = []"

definition mounts :: "'cb effect list \<Rightarrow> 'cb node list" where
  "mounts effs = concat (map mounted_of effs)"

definition unmounts :: "'cb effect list \<Rightarrow> 'cb node list" where
  "unmounts effs = concat (map unmounted_of effs)"

definition targets :: "'cb effect list \<Rightarrow> 'cb node list" where
  "targets effs = concat (map target_of effs)"

definition changes :: "'cb effect list \<Rightarrow> 'cb node list \<Rightarrow> 'cb node list \<Rightarrow> bool" where
  "changes effs ms us \<longleftrightarrow> mounts effs = ms \<and> unmounts effs = us"

text \<open>Keys that are distinct among the children of every instance.\<close>

fun wf_keys :: "'cb inst \<Rightarrow> bool" where
  "wf_keys Hole \<longleftrightarrow> True"
| "wf_keys (Inst e js) \<longleftrightarrow> distinct (concat (map ikey js)) \<and> list_all wf_keys js"

subsection \<open>The rendering after a click\<close>

text \<open>
  Sibling titles are distinct in every list of the tree (\<open>keyed_items\<close>). \<open>below\<close> lists
  the instances of the nested list of a menu; \<open>created\<close> and \<open>removed\<close> are what a click
  on the menu is expected to create and to remove. \<open>rerender\<close> compares the instances
  of one tree of entries with the rendering of the next.
\<close>

fun keyed :: "Item \<Rightarrow> bool" where
  "keyed it \<longleftrightarrow> distinct (map title (kids it)) \<and> list_all keyed (kids it)"

declare keyed.simps [simp del]

definition keyed_items :: "Item list \<Rightarrow> bool" where
  "keyed_items its \<longleftrightarrow> distinct (map title its) \<and> list_all keyed its"

definition below ::
  "string \<Rightarrow> 'cb option \<Rightarrow> (string \<times> string) list \<Rightarrow> Item \<Rightarrow> 'cb node list" where
  "below cp cb r m = insts (toc_inst (nested_props cp cb r (kids m)))"

definition created ::
  "string \<Rightarrow> 'cb option \<Rightarrow> (string \<times> string) list \<Rightarrow> Item \<Rightarrow> 'cb node list" where
  "created cp cb r m = (if truthy (isOpen m) then [] else below cp cb r m)"

definition removed ::
  "string \<Rightarrow> 'cb option \<Rightarrow> (string \<times> string) list \<Rightarrow> Item \<Rightarrow> 'cb node list" where
  "removed cp cb r m = (if truthy (isOpen m) then below cp cb r m else [])"

definition entry_effects ::
  "string \<Rightarrow> 'cb option \<Rightarrow> (string \<times> string) list \<Rightarrow> bool \<Rightarrow> string \<Rightarrow> bool \<Rightarrow> Item
     \<Rightarrow> 'cb effect list" where
  "entry_effects cp cb r t i b it =
     reconcile (entry_inst cp cb r t it) (entry_inst cp cb r t (set_open i b it))"

definition rerender :: "string \<Rightarrow> Item list \<Rightarrow> Item list \<Rightarrow> unit effect list result" where
  "rerender cp s t =
     (case mount (TableOfContentsItems_el (owner_props cp s)) of
        Inl e \<Rightarrow> Inl e
      | Inr old \<Rightarrow>
          (case mount (TableOfContentsItems_el (owner_props cp t)) of
             Inl e \<Rightarrow> Inl e
           | Inr new \<Rightarrow> Inr (reconcile old new)))"

subsection \<open>Children with the same keys in the same places\<close>

lemma ikey_nth_neq:
  assumes "distinct (concat (map ikey js))" and "i < j" and "j < length js"
    and "ikey (js ! i) \<noteq> []"
  shows "ikey (js ! i) \<noteq> ikey (js ! j)"
  using assms
proof (induction js arbitrary: i j)
  case (Cons x js)
  show ?case
  proof (cases i)
    case 0
    with Cons.prems obtain j' where j: "j = Suc j'" "j' < length js" by (cases j) auto
    then have "js ! j' \<in> set js" by simp
    with Cons.prems(1) have disj: "set (ikey x) \<inter> set (ikey (js ! j')) = {}" by auto
    have "ikey x \<noteq> ikey (js ! j')"
    proof
      assume "ikey x = ikey (js ! j')"
      with disj have "set (ikey x) = {}" by simp
      with Cons.prems(4) 0 show False by simp
    qed
    with 0 j show ?thesis by simp
  next
    case (Suc i')
    with Cons.prems obtain j' where "j = Suc j'" "i' < j'" "j' < length js" by (cases j) auto
    with Cons.prems Suc Cons.IH [of i' j'] show ?thesis by simp
  qed
qed simp

lemma partner_aligned:
  assumes "map ikey olds = map ikey news" and "distinct (concat (map ikey olds))"
    and "j < length news"
  shows "partner olds j (news ! j) = olds ! j"
proof -
  from assms(1) have len: "length olds = length news" by (rule map_eq_imp_length_eq)
  from assms(1,3) len have k: "ikey (olds ! j) = ikey (news ! j)"
    by (metis nth_map)
  show ?thesis
  proof (cases "ikey (news ! j) = []")
    case True
    with k len assms(3) show ?thesis by (simp add: partner_def)
  next
    case False
    have "find (\<lambda>old. ikey old = ikey (news ! j)) olds = Some (olds ! j)"
      unfolding find_Some_iff
    proof (intro exI [of _ j] conjI allI impI)
      fix i assume "i < j"
      show "\<not> ikey (olds ! i) = ikey (news ! j)"
      proof
        assume e: "ikey (olds ! i) = ikey (news ! j)"
        with False have "ikey (olds ! i) \<noteq> []" by simp
        from ikey_nth_neq [OF assms(2) \<open>i < j\<close> _ this] len assms(3) e k show False by simp
      qed
    qed (use k len assms(3) in simp_all)
    with False show ?thesis by (simp add: partner_def)
  qed
qed

lemma leftover_aligned:
  assumes "map ikey olds = map ikey news"
  shows "leftover olds news = []"
proof -
  from assms have len: "length olds = length news" by (rule map_eq_imp_length_eq)
  have "ikey (olds ! j) = ikey (news ! j)" if "j < length olds" for j
    using assms that len by (metis nth_map)
  with len show ?thesis
    by (auto simp: leftover_def filter_empty_conv in_set_enumerate_eq)
qed

lemma reconcile_subs_aligned:
  assumes "map ikey olds = map ikey news" and "distinct (concat (map ikey olds))"
    and "ns = drop j news"
  shows "reconcile_subs olds j ns = concat (map2 reconcile (drop j olds) ns)"
  using assms(3)
proof (induction ns arbitrary: j)
  case (Cons n ns)
  from assms(1) have len: "length olds = length news" by (rule map_eq_imp_length_eq)
  from Cons.prems have jl: "j < length news" by (cases "j < length news") auto
  with Cons.prems Cons_nth_drop_Suc [of j news]
  have "news ! j # drop (Suc j) news = n # ns" by simp
  with jl have j: "j < length news" "n = news ! j" "ns = drop (Suc j) news"
    by simp_all
  from j(1) len have "drop j olds = olds ! j # drop (Suc j) olds"
    by (simp add: Cons_nth_drop_Suc)
  with Cons.IH [OF j(3)] partner_aligned [OF assms(1,2) j(1)] j(2) show ?case by simp
qed simp

lemma reconcile_aligned:
  assumes "map ikey js = map ikey js'" and "distinct (concat (map ikey js))"
    and "etype_of e = etype_of e'" and "key_of e = key_of e'"
  shows "reconcile (Inst e js) (Inst e' js') = Updated e e' # concat (map2 reconcile js js')"
  using assms reconcile_subs_aligned [OF assms(1,2), of js' 0]
  by (simp add: leftover_aligned)

subsection \<open>Effects\<close>

lemma mounts_simps [simp]:
  "mounts [] = []"
  "mounts (Mounted e # effs) = e # mounts effs"
  "mounts (Unmounted e # effs) = mounts effs"
  "mounts (Updated e e' # effs) = mounts effs"
  "mounts (xs @ ys) = mounts xs @ mounts ys"
  "mounts (map Mounted es) = es"
  "mounts (map Unmounted es) = []"
  "mounts (map (\<lambda>e. Updated e e) es) = []"
  by (simp_all add: mounts_def) (induction es; simp)+

lemma unmounts_simps [simp]:
  "unmounts [] = []"
  "unmounts (Mounted e # effs) = unmounts effs"
  "unmounts (Unmounted e # effs) = e # unmounts effs"
  "unmounts (Updated e e' # effs) = unmounts effs"
  "unmounts (xs @ ys) = unmounts xs @ unmounts ys"
  "unmounts (map Mounted es) = []"
  "unmounts (map Unmounted es) = es"
  "unmounts (map (\<lambda>e. Updated e e) es) = []"
  by (simp_all add: unmounts_def) (induction es; simp)+

lemma targets_simps [simp]:
  "targets [] = []"
  "targets (eff # effs) = target_of eff @ targets effs"
  "targets (xs @ ys) = targets xs @ targets ys"
  "targets (map Mounted es) = es"
  "targets (map Unmounted es) = []"
  by (simp_all add: targets_def) (induction es; simp)+

lemma changes_simps [simp]:
  "changes [] ms us \<longleftrightarrow> ms = [] \<and> us = []"
  "changes (Updated e e' # effs) ms us \<longleftrightarrow> changes effs ms us"
  "changes (map Mounted es) ms us \<longleftrightarrow> ms = es \<and> us = []"
  "changes (map Unmounted es) ms us \<longleftrightarrow> ms = [] \<and> us = es"
  "changes (map (\<lambda>e. Updated e e) es) ms us \<longleftrightarrow> ms = [] \<and> us = []"
  by (auto simp: changes_def)

lemma changes_append:
  "changes xs [] [] \<Longrightarrow> changes (xs @ ys) ms us \<longleftrightarrow> changes ys ms us"
  "changes ys [] [] \<Longrightarrow> changes (xs @ ys) ms us \<longleftrightarrow> changes xs ms us"
  by (auto simp: changes_def)

lemma changes_concat_Nil:
  "(\<And>x. x \<in> set xs \<Longrightarrow> changes (f x) [] []) \<Longrightarrow> changes (concat (map f xs)) [] []"
  by (induction xs) (auto simp: changes_def)

text \<open>Every instance of the new tree is either created or the next version of a kept one.\<close>

lemma targets_reconcile:
  fixes old :: "'cb inst" and olds :: "'cb inst list"
  shows "targets (reconcile old new) = insts new"
    and "targets (reconcile_subs olds i news) = concat (map insts news)"
  by (induction old new and olds i news rule: reconcile_reconcile_subs.induct) simp_all

subsection \<open>An unchanged tree\<close>

lemma reconcile_same: "wf_keys x \<Longrightarrow> reconcile x x = map (\<lambda>e. Updated e e) (insts x)"
proof (induction x)
  case (Inst e js)
  then have "concat (map (\<lambda>j. reconcile j j) js) =
      concat (map (\<lambda>j. map (\<lambda>e. Updated e e) (insts j)) js)"
    by (intro arg_cong [where f = concat] map_cong) (simp_all add: list_all_iff)
  moreover from Inst.prems
  have "reconcile (Inst e js) (Inst e js) = Updated e e # concat (map2 reconcile js js)"
    by (intro reconcile_aligned) simp_all
  ultimately show ?case by (simp add: map2_same map_concat comp_def del: reconcile.simps)
qed simp

subsection \<open>The instances of the entries\<close>

lemma ikey_entry_inst [simp]: "ikey (entry_inst cp cb r t it) = [title it]"
  by (simp add: entry_inst.simps [of _ _ _ _ it] entry_el_def)

lemma ikey_toggle [simp]: "ikey (host_inst (toggle_el p)) = []"
  by (simp add: toggle_el_def)

lemma ikey_nested_inst [simp]: "ikey (nested_inst cp cb r it) = []"
  by (simp add: nested_inst_def toc_inst_def list_inst_def)

lemma keys_entry_insts [simp]:
  "concat (map (ikey \<circ> entry_inst cp cb r t) its) = map title its"
  by (induction its) simp_all

lemma key_of_components [simp]:
  "key_of (Menu p) = []"
  "key_of (TableOfContentsItems q) = []"
  by (cases "children (item p)") (simp_all add: Menu_Some TableOfContentsItems_eq)

lemma etype_of_components [simp]:
  "children (item p) \<noteq> None \<Longrightarrow> etype_of (Menu p) = E_li"
  "etype_of (TableOfContentsItems q) =
     E_list (if list_all (\<lambda>c. type c = TBulletLink) (items q) then ol else ul)"
  by (auto simp: Menu_Some TableOfContentsItems_eq)

lemma wf_keys_toggle [simp]: "wf_keys (host_inst (toggle_el p))"
  by (simp add: toggle_el_def)

lemma wf_keys_entry_inst: "keyed it \<Longrightarrow> wf_keys (entry_inst cp cb r t it)"
proof (induction it arbitrary: t rule: Item_kids_induct)
  case (Item it)
  from Item.prems have k: "distinct (map title (kids it))" "list_all keyed (kids it)"
    by (simp_all add: keyed.simps [of it])
  with Item.IH have "list_all (\<lambda>c. wf_keys (entry_inst cp cb r False c)) (kids it)"
    by (simp add: list_all_iff)
  with k(1) show ?case
    by (cases "type it = TMenu"; cases "children it")
      (simp_all add: entry_inst_cases nested_inst_def toc_inst_def list_inst_def
        list_all_iff)
qed

subsection \<open>One entry against its next version\<close>

lemma toggle_kept:
  assumes "isTopLevel p' = isTopLevel p"
  shows "changes (reconcile (host_inst (toggle_el p)) (host_inst (toggle_el p'))) [] []"
  using assms by (simp add: changes_def toggle_el_def partner_def leftover_def)

lemma reconcile_entry_inst:
  assumes "title it' = title it" and "type it' = type it"
    and "children it' = None \<longleftrightarrow> children it = None"
  shows "\<exists>e e'. reconcile (entry_inst cp cb r t it) (entry_inst cp cb r t it') =
     Updated (entry_el cp cb r t it) (entry_el cp cb r t it') #
     (if type it = TMenu \<and> children it \<noteq> None
      then Updated e e' #
           reconcile (host_inst (toggle_el (menu_props cp cb r t it)))
             (host_inst (toggle_el (menu_props cp cb r t it'))) @
           reconcile (nested_inst cp cb r it) (nested_inst cp cb r it')
      else [])"
proof -
  have top: "reconcile (Inst (entry_el cp cb r t it) js) (Inst (entry_el cp cb r t it') js') =
      Updated (entry_el cp cb r t it) (entry_el cp cb r t it') # concat (map2 reconcile js js')"
    if "map ikey js = map ikey js'" "distinct (concat (map ikey js))" for js js'
    using that assms(1,2) by (intro reconcile_aligned) (simp_all add: entry_el_def)
  consider (leaf) "type it \<noteq> TMenu" | (childless) "type it = TMenu" "children it = None"
    | (menu) cs where "type it = TMenu" "children it = Some cs"
    by (cases "children it") auto
  then show ?thesis
  proof cases
    case leaf
    with assms(2) top [of "[]" "[]"] show ?thesis by (simp add: entry_inst_cases)
  next
    case childless
    with assms(2,3) top [of "[Hole]" "[Hole]"] show ?thesis by (simp add: entry_inst_cases)
  next
    case menu
    with assms(3) obtain cs' where cs': "children it' = Some cs'" by (cases "children it'") auto
    let ?js = "\<lambda>x. [host_inst (toggle_el (menu_props cp cb r t x)), nested_inst cp cb r x]"
    let ?li = "\<lambda>x. Menu (menu_props cp cb r t x)"
    have "reconcile (Inst (?li it) (?js it)) (Inst (?li it') (?js it')) =
        Updated (?li it) (?li it') # concat (map2 reconcile (?js it) (?js it'))"
      using menu cs' by (intro reconcile_aligned) simp_all
    with menu cs' assms(2) top [of "[Inst (?li it) (?js it)]" "[Inst (?li it') (?js it')]"]
    show ?thesis by (simp add: entry_inst_cases del: reconcile.simps)
  qed
qed

lemma reconcile_nested_inst:
  "\<not> truthy (isOpen it') \<Longrightarrow>
     reconcile (nested_inst cp cb r it) (nested_inst cp cb r it') =
       map Unmounted (insts (nested_inst cp cb r it))"
  "\<not> truthy (isOpen it) \<Longrightarrow> truthy (isOpen it') \<Longrightarrow>
     reconcile (nested_inst cp cb r it) (nested_inst cp cb r it') =
       map Mounted (insts (nested_inst cp cb r it'))"
  by (simp_all add: nested_inst_def toc_inst_def list_inst_def)

lemma insts_nested_inst:
  "insts (nested_inst cp cb r it) = (if truthy (isOpen it) then below cp cb r it else [])"
  by (simp add: nested_inst_def below_def)

lemma reconcile_toc_inst:
  assumes "map title (items p') = map title (items p)"
    and "map type (items p') = map type (items p)"
    and "distinct (map title (items p))"
  shows "\<exists>e1 e1' e2 e2'.
     reconcile (toc_inst p) (toc_inst p') =
       Updated e1 e1' # Updated e2 e2' #
       concat (map2 reconcile
         (map (entry_inst (currentPath p) (setMenuOpenStateById p) (rest p)
                 (truthy (isTopLevel p))) (items p))
         (map (entry_inst (currentPath p') (setMenuOpenStateById p') (rest p')
                 (truthy (isTopLevel p'))) (items p')))"
proof -
  let ?js = "\<lambda>q. map (entry_inst (currentPath q) (setMenuOpenStateById q) (rest q)
    (truthy (isTopLevel q))) (items q)"
  let ?li = "\<lambda>q. TableOfContentsItems (TableOfContentsItems_defaultProps q)"
  have "list_all (\<lambda>ty. ty = TBulletLink) (map type (items p')) =
      list_all (\<lambda>ty. ty = TBulletLink) (map type (items p))"
    by (simp only: assms(2))
  then have tag: "etype_of (?li p) = etype_of (?li p')"
    by (simp add: list_all_iff)
  from assms(1) have "map (\<lambda>k. [k]) (map title (items p)) = map (\<lambda>k. [k]) (map title (items p'))"
    by simp
  then have keys: "map ikey (?js p) = map ikey (?js p')"
    by (simp add: comp_def)
  have inner: "reconcile (Inst (?li p) (?js p)) (Inst (?li p') (?js p')) =
      Updated (?li p) (?li p') # concat (map2 reconcile (?js p) (?js p'))"
    using tag keys assms(1,3) by (intro reconcile_aligned) simp_all
  have "reconcile (Inst (TableOfContentsItems_el p) [Inst (?li p) (?js p)])
      (Inst (TableOfContentsItems_el p') [Inst (?li p') (?js p')]) =
    Updated (TableOfContentsItems_el p) (TableOfContentsItems_el p') #
    concat (map2 reconcile [Inst (?li p) (?js p)] [Inst (?li p') (?js p')])"
    by (intro reconcile_aligned) simp_all
  with inner show ?thesis
    by (simp add: toc_inst_def list_inst_def del: reconcile.simps)
qed

lemma reconcile_toc_inst_click:
  assumes "distinct (map title (items p))"
  shows "\<exists>e1 e1' e2 e2'.
     reconcile (toc_inst p) (toc_inst (p\<lparr>items := map (set_open i b) (items p)\<rparr>)) =
       Updated e1 e1' # Updated e2 e2' #
       concat (map (entry_effects (currentPath p) (setMenuOpenStateById p) (rest p)
                      (truthy (isTopLevel p)) i b) (items p))"
  using reconcile_toc_inst [of "p\<lparr>items := map (set_open i b) (items p)\<rparr>" p] assms
  by (simp add: comp_def map2_map_map entry_effects_def [abs_def])

subsection \<open>The effects of a click\<close>

lemma changes_menu_entry:
  assumes "type it = TMenu" and "children it = Some cs"
    and "changes (reconcile (nested_inst cp cb r it) (nested_inst cp cb r (set_open i b it)))
      ms us"
  shows "changes (entry_effects cp cb r t i b it) ms us"
proof -
  from assms(1,2) reconcile_entry_inst [of "set_open i b it" it cp cb r t]
  obtain e e' where "entry_effects cp cb r t i b it =
      Updated (entry_el cp cb r t it) (entry_el cp cb r t (set_open i b it)) # Updated e e' #
      reconcile (host_inst (toggle_el (menu_props cp cb r t it)))
        (host_inst (toggle_el (menu_props cp cb r t (set_open i b it)))) @
      reconcile (nested_inst cp cb r it) (nested_inst cp cb r (set_open i b it))"
    by (cases it) (auto simp: entry_effects_def)
  with assms(3) show ?thesis by (simp add: changes_append toggle_kept)
qed

lemma changes_absent:
  assumes "i \<notin> set (ids [it])" and "keyed it"
  shows "changes (entry_effects cp cb r t i b it) [] []"
  using assms by (simp add: entry_effects_def set_open_absent reconcile_same wf_keys_entry_inst)

lemma changes_clicked:
  assumes "type it = TMenu" and "children it = Some cs" and "item_id it \<notin> set (ids cs)"
  shows "changes (entry_effects cp cb r t (item_id it) (\<not> truthy (isOpen it)) it)
     (created cp cb r it) (removed cp cb r it)"
proof (rule changes_menu_entry [OF assms(1,2)])
  let ?it' = "set_open (item_id it) (\<not> truthy (isOpen it)) it"
  from assms(2,3) have "kids ?it' = kids it" by (simp add: kids_def set_open_absent_list)
  moreover have "isOpen ?it' = Some (\<not> truthy (isOpen it))" by (cases it) simp
  ultimately show "changes (reconcile (nested_inst cp cb r it) (nested_inst cp cb r ?it'))
      (created cp cb r it) (removed cp cb r it)"
    by (cases "truthy (isOpen it)")
      (simp_all add: reconcile_nested_inst insts_nested_inst below_def created_def removed_def)
qed

lemma changes_below_open:
  assumes "type it = TMenu" and "children it = Some cs" and "truthy (isOpen it)"
    and "item_id it \<noteq> i" and "distinct (map title cs)"
    and "changes (concat (map (entry_effects cp cb r False i b) cs)) ms us"
  shows "changes (entry_effects cp cb r t i b it) ms us"
proof (rule changes_menu_entry [OF assms(1,2)])
  from assms(2) have kids: "kids it = cs" "kids (set_open i b it) = map (set_open i b) cs"
    by (simp_all add: kids_def)
  from assms(4) have "isOpen (set_open i b it) = isOpen it" by (cases it) simp
  with reconcile_toc_inst_click [of "nested_props cp cb r cs" i b] assms(3,5) kids
  obtain e1 e1' e2 e2' where
    "reconcile (nested_inst cp cb r it) (nested_inst cp cb r (set_open i b it)) =
      Updated e1 e1' # Updated e2 e2' # concat (map (entry_effects cp cb r False i b) cs)"
    by (auto simp: nested_inst_def)
  with assms(6)
  show "changes (reconcile (nested_inst cp cb r it) (nested_inst cp cb r (set_open i b it)))
      ms us"
    by simp
qed

lemma ids_entry: "c \<in> set its \<Longrightarrow> set (ids [c]) \<subseteq> set (ids its)"
  by (induction its) auto

lemma distinct_ids_entry: "distinct (ids its) \<Longrightarrow> c \<in> set its \<Longrightarrow> distinct (ids [c])"
  by (induction its) auto

lemma shown_ids: "m \<in> set (shown c) \<Longrightarrow> item_id m \<in> set (ids [c])"
  using shown_subset_nodes [of c] by (auto simp: ids_def)

lemma changes_siblings:
  assumes "distinct (ids its)" and "list_all keyed its" and "m \<in> set (visible its)"
    and "\<And>c. c \<in> set its \<Longrightarrow> m \<in> set (shown c) \<Longrightarrow>
      changes (entry_effects cp cb r t (item_id m) b c) ms us"
  shows "changes (concat (map (entry_effects cp cb r t (item_id m) b) its)) ms us"
  using assms
proof (induction its)
  case (Cons c its)
  from Cons.prems(1) have d: "distinct (ids its)" "set (ids [c]) \<inter> set (ids its) = {}"
    by auto
  show ?case
  proof (cases "m \<in> set (shown c)")
    case True
    from shown_ids [OF True] d(2) have "item_id m \<notin> set (ids its)" by auto
    with ids_entry have "item_id m \<notin> set (ids [c'])" if "c' \<in> set its" for c'
      using that by blast
    with Cons.prems(2)
    have "changes (concat (map (entry_effects cp cb r t (item_id m) b) its)) [] []"
      by (intro changes_concat_Nil changes_absent) (simp_all add: list_all_iff)
    with Cons.prems(4) [of c] True show ?thesis by (simp add: changes_append)
  next
    case False
    with Cons.prems(3) have m: "m \<in> set (visible its)" by (simp add: visible_def)
    then have "item_id m \<in> set (ids its)" by (rule visible_ids)
    with d(2) have "item_id m \<notin> set (ids [c])" by auto
    with Cons.prems(2) have "changes (entry_effects cp cb r t (item_id m) b c) [] []"
      by (simp add: changes_absent)
    with Cons.IH [OF d(1) _ m] Cons.prems(2,4) show ?thesis by (simp add: changes_append)
  qed
qed (simp add: visible_def)

lemma changes_shown:
  assumes "distinct (ids [it])" and "keyed it" and "m \<in> set (shown it)" and "type m = TMenu"
  shows "changes (entry_effects cp cb r t (item_id m) (\<not> truthy (isOpen m)) it)
     (created cp cb r m) (removed cp cb r m)"
  using assms
proof (induction it arbitrary: t rule: Item_kids_induct)
  case (Item it)
  from Item.prems(3,4) obtain cs where cs: "type it = TMenu" "children it = Some cs"
    by (cases "type it = TMenu"; cases "children it") (auto simp: shown_eq [of it])
  then have kids: "kids it = cs" by (simp add: kids_def)
  from Item.prems(2) have k: "distinct (map title cs)" "list_all keyed cs"
    by (simp_all add: keyed.simps [of it] kids)
  from Item.prems(1) kids have d: "item_id it \<notin> set (ids cs)" "distinct (ids cs)" by simp_all
  show ?case
  proof (cases "m = it")
    case True
    with cs d(1) show ?thesis by (simp add: changes_clicked)
  next
    case False
    with Item.prems(3) cs kids have op: "truthy (isOpen it)" and m: "m \<in> set (visible cs)"
      by (auto simp: shown_eq [of it] visible_def split: if_splits)
    from m d(1) have "item_id it \<noteq> item_id m" by (auto dest: visible_ids)
    moreover have "changes (concat (map (entry_effects cp cb r False (item_id m)
        (\<not> truthy (isOpen m))) cs)) (created cp cb r m) (removed cp cb r m)"
    proof (rule changes_siblings [OF d(2) k(2) m])
      fix c assume c: "c \<in> set cs" "m \<in> set (shown c)"
      from d(2) c(1) have "distinct (ids [c])" by (rule distinct_ids_entry)
      moreover from c(1) k(2) have "keyed c" by (simp add: list_all_iff)
      ultimately show "changes (entry_effects cp cb r False (item_id m) (\<not> truthy (isOpen m)) c)
          (created cp cb r m) (removed cp cb r m)"
        using c Item.prems(4) kids by (intro Item.IH) simp_all
    qed
    ultimately show ?thesis using cs op k(1) by (intro changes_below_open)
  qed
qed

lemma changes_items:
  assumes "distinct (ids s)" and "keyed_items s" and "m \<in> set (visible s)" and "type m = TMenu"
  shows "changes (concat (map (entry_effects cp cb r t (item_id m) (\<not> truthy (isOpen m))) s))
     (created cp cb r m) (removed cp cb r m)"
proof (rule changes_siblings [OF assms(1) _ assms(3)])
  from assms(2) show k: "list_all keyed s" by (simp add: keyed_items_def)
  fix c assume c: "c \<in> set s" "m \<in> set (shown c)"
  from assms(1) c(1) have "distinct (ids [c])" by (rule distinct_ids_entry)
  moreover from c(1) k have "keyed c" by (simp add: list_all_iff)
  ultimately show "changes (entry_effects cp cb r t (item_id m) (\<not> truthy (isOpen m)) c)
      (created cp cb r m) (removed cp cb r m)"
    using c(2) assms(4) by (rule changes_shown)
qed

lemma rerender_eq:
  assumes "wf_items s"
  shows "rerender cp s (set_open_all a s) =
     Inr (reconcile (toc_inst (owner_props cp s)) (toc_inst (owner_props cp (set_open_all a s))))"
proof -
  have "recognised (type e)" if "e \<in> set (visible (set_open_all a s))" for e
    using wf_items_visible_recognised [OF _ that] assms(1) by simp
  moreover have "recognised (type e)" if "e \<in> set (visible s)" for e
    using wf_items_visible_recognised [OF assms(1) that] .
  ultimately have "list_all (\<lambda>e. recognised (type e)) (visible s)"
    "list_all (\<lambda>e. recognised (type e)) (visible (set_open_all a s))"
    by (simp_all add: list_all_iff)
  then show ?thesis by (simp add: rerender_def mount_toc_inst owner_props_def)
qed

lemma changes_rerender:
  assumes "wf_items s" and "keyed_items s" and "m \<in> set (visible s)" and "type m = TMenu"
  shows "changes (reconcile (toc_inst (owner_props cp s))
       (toc_inst (owner_props cp (set_open_all (toggle_args m) s))))
     (created cp (Some ()) [] m) (removed cp (Some ()) [] m)"
proof -
  from assms(2) have "distinct (map title s)" by (simp add: keyed_items_def)
  with reconcile_toc_inst_click [of "owner_props cp s" "item_id m" "\<not> truthy (isOpen m)"]
  obtain e1 e1' e2 e2' where
    "reconcile (toc_inst (owner_props cp s))
       (toc_inst (owner_props cp (set_open_all (toggle_args m) s))) =
      Updated e1 e1' # Updated e2 e2' #
      concat (map (entry_effects cp (Some ()) [] True (item_id m) (\<not> truthy (isOpen m))) s)"
    by (auto simp: owner_props_def set_open_all_def toggle_args_def)
  with changes_items [OF wf_items_distinct [OF assms(1)] assms(2-4)] show ?thesis by simp
qed

text \<open>
  C11. What React does to the page when it renders again after a click, for a
  well-formed tree whose sibling titles are distinct: both renderings succeed; every
  instance of the new page is either created or the next version of one that was kept;
  when the clicked menu was closed, exactly the instances of its nested list are
  created and nothing is removed; when it was open, exactly those are removed and
  nothing is created. So every element outside the nested list of the clicked menu,
  the clicked toggle included, survives the click.
\<close>

theorem click_reconciled:
  assumes "wf_items s" and "keyed_items s" and "ui_step cp s t"
  shows "\<exists>m \<in> set (visible s). type m = TMenu \<and> t = set_open_all (toggle_args m) s \<and>
     (\<exists>effs. rerender cp s t = Inr effs \<and>
        targets effs = insts (toc_inst (owner_props cp t)) \<and>
        mounts effs = created cp (Some ()) [] m \<and>
        unmounts effs = removed cp (Some ()) [] m)"
proof -
  from assms(3) obtain m where m: "m \<in> set (visible s)" "type m = TMenu"
    and t: "t = set_open_all (toggle_args m) s"
    by (auto simp: ui_step_iff clicks_eq split: if_splits)
  let ?effs = "reconcile (toc_inst (owner_props cp s)) (toc_inst (owner_props cp t))"
  from rerender_eq [OF assms(1)] have "rerender cp s t = Inr ?effs" by (simp add: t)
  moreover have "targets ?effs = insts (toc_inst (owner_props cp t))"
    by (rule targets_reconcile)
  moreover from changes_rerender [OF assms(1,2) m]
  have "mounts ?effs = created cp (Some ()) [] m" "unmounts ?effs = removed cp (Some ()) [] m"
    by (simp_all add: changes_def t)
  ultimately show ?thesis using m t by blast
qed

theorem click_reconciled_witness:
  "wf_items (scenario None) \<and> keyed_items (scenario None) \<and>
   ui_step ''/a'' (scenario None) (scenario (Some True)) \<and>
   (\<exists>effs. rerender ''/a'' (scenario None) (scenario (Some True)) = Inr effs \<and>
      mounts effs = below ''/a'' (Some ()) [] (Item ''B'' TMenu None
        (Some [Item ''C'' TLink (Some ''/c'') None ''c'' None]) ''b'' None) \<and>
      unmounts effs = [])"
proof -
  have k: "keyed_items (scenario None)"
    by (simp add: keyed_items_def scenario_def keyed.simps)
  have s: "ui_step ''/a'' (scenario None) (scenario (Some True))"
    using ui_step_scenario [of "''/a''" None] by simp
  from click_reconciled [OF wf_items_scenario k s] show ?thesis
    using k s by (simp add: visible_scenario) (auto simp: scenario_def created_def removed_def)
qed

end
