(* ===== verification/Spec2Isabelle.thy ===== *)
theory Spec2Isabelle
  imports Owner Styles Markup Flags Clicks Reveal Cascade Reconcile
begin

text \<open>
  \<^bold>\<open>A verification development for the table-of-contents component\<close>
  (\<^verbatim>\<open>src/src/components/table-of-contents/TableOfContentsItems.tsx\<close>).

  \<^bold>\<open>The program.\<close> The file exports one React component, \<open>TableOfContentsItems\<close>, and
  holds a second one, \<open>Menu\<close>, that it uses for entries of type \<open>menu\<close>. Given a list
  of entries (\<open>Item\<close>: title, type, optional path, optional children, identifier,
  optional open flag), \<open>TableOfContentsItems\<close> creates a list element, ordered when
  every entry is a bulleted link, with one child element per entry whose component is
  looked up from the entry's type by \<open>getItemComponent\<close>. \<open>Menu\<close> creates a list item
  with a toggle and, when the entry is open, a nested \<open>TableOfContentsItems\<close> for the
  children. The components keep no state: the open flags live in the tree they are
  given, and a click on a toggle only calls the \<open>setMenuOpenStateById\<close> callback with
  the entry's identifier and the negated flag.

  \<^bold>\<open>The theories.\<close>
  \<^item> \<open>TOC_Prelude\<close>: the failure values, JavaScript truthiness of an optional boolean,
    the combinators for rendering children in order (\<open>collect\<close>, \<open>all_ok\<close>), and the
    lemma collections.
  \<^item> \<open>Item_Model\<close>: \<open>ItemType\<close> and \<open>Item\<close> (lines 13 to 28), the entries and
    identifiers of a tree, the entries a rendering shows (\<open>visible\<close>), and
    well-formedness (\<open>wf_items\<close>: recognised types, menus with children, distinct
    identifiers).
  \<^item> \<open>Elements\<close>: the props records (lines 62 to 65, 78 to 85, 163 to 169), the elements
    the JSX of the file can create (\<open>node\<close>), and the observations on them.
  \<^item> \<open>Components\<close>: \<open>getItemComponent\<close>, \<open>toggleOpenState\<close> and \<open>onClick\<close>, \<open>Menu\<close>,
    \<open>TableOfContentsItems\<close> and the two \<open>defaultProps\<close>, one definition per function of
    the file, with the lemmas that say what each returns on every branch.

  \<^item> \<open>Render\<close>: the part of the rendering library the two components rely on, modelled
    from its documented behaviour (\<open>render\<close>): a function component is called on its
    props after \<open>defaultProps\<close> filled the absent ones, children are rendered in order,
    \<open>null\<close> and \<open>false\<close> produce nothing, an element whose type is \<open>null\<close> is refused.
    \<open>view_list\<close> is the reference: the rendering written as one structural recursion
    over the entries. The main lemma, \<open>render_view_list\<close>, says that \<open>render\<close> computes
    \<open>view_list\<close> when every shown entry has a recognised type and fails otherwise; what
    a rendering contains (handlers, leaf entries, no unexpanded component) and what a
    click on each of its toggles does, with and without the callback, follow from it.
  \<^item> \<open>Owner\<close>: the owner of the tree, modelled from the specification (\<open>set_open\<close>), and
    the state machine of clicks and re-renderings (\<open>ui_step\<close>, \<open>reachable\<close>), with its
    invariants, its abstraction to the set of open identifiers (\<open>open_ids\<close>) and the
    effect of a click on the shown entries (\<open>vis_ids_toggled\<close>).
  \<^item> \<open>Styles\<close>: the style sheets of the three styled components (lines 43 to 76 and 122
    to 161) as functions of the props, and the link between the state of a menu and
    the rotation of its arrow in a rendering.
  \<^item> \<open>Markup\<close>: the type of a rendering (\<open>wf_markup\<close>: rows, toggles, nested lists
    that are never top-level), the keys of the rows, the props that reach the link
    elements, and the size of a rendering in terms of the shown entries.
  \<^item> \<open>Flags\<close>: the controller the specification recommends, a map from identifiers to
    booleans beside a tree without flags (\<open>get_flags\<close>, \<open>put_flags\<close>,
    \<open>controller_set\<close>), with the round trip between the two representations and the
    proof that the owner's update of the tree implements the update of the map.
  \<^item> \<open>Clicks\<close>: sequences of clicks and re-renderings (\<open>fire\<close>, \<open>run\<close>) in which a
    click may come from a rendering that is no longer current: what two clicks on one
    toggle do with and without a re-rendering between them, and what every run
    preserves.
  \<^item> \<open>Reveal\<close>: which entries clicking can bring into view (\<open>navigable\<close>), that some
    run of clicks shows them all, and that the least number of clicks that fully
    expands a tree is the number of its closed navigable menus (\<open>todo\<close>).
  \<^item> \<open>Selectors\<close>: the part of the browser's style engine that the style sheet of
    the list relies on, modelled from its documented behaviour: the selectors that the
    source writes as strings are parsed (\<open>parse_selector\<close>), nested rules are flattened
    (\<open>rules\<close>), a selector is matched against the elements from the styled list down to
    the selected one (\<open>matches\<close>), and among the declarations that apply the one of the
    highest specificity wins, the later one among equals (\<open>winner\<close>).
  \<^item> \<open>Cascade\<close>: the style sheet of \<open>List\<close> applied to the renderings: the chains of
    nested lists and list items of a rendering (\<open>chains\<close>, \<open>item_chains\<close>), the value
    a property gets at the end of a chain (\<open>cascaded\<close>), and the theorems that give the
    indentation and spacing of every list and the space above the list item of every
    menu in closed form (\<open>indent\<close>, \<open>item_padding\<close>), by nesting depth and list tag.
  \<^item> \<open>Instances\<close>: the tree of instances the rendering library keeps between two
    renderings, modelled from its documented behaviour (\<open>mount\<close>): one instance per
    element, the instances of the two components included, and a hole where a
    component returned \<open>null\<close>. \<open>toc_inst\<close> is the tree written as one recursion over
    the entries; \<open>mount_refines_render\<close> says that \<open>mount\<close> computes it and that the
    elements it leaves on the page are those of \<open>render\<close>.
  \<^item> \<open>Reconcile\<close>: the comparison of the kept instances with a new rendering
    (\<open>reconcile\<close>), by element type and by the key the source gives the elements of a
    list (line 187), and its effects: which elements are created, removed and
    updated. \<open>click_reconciled\<close> says that after a click exactly the nested list of
    the clicked menu is created or removed, for trees with distinct sibling titles.
  \<^item> This theory: the two scenarios of the specification, computed with the
    definitions above.

  \<^bold>\<open>Conventions.\<close> An optional field or prop is an \<open>option\<close>; \<open>truthy\<close> is what an
  \<open>if\<close>, \<open>&&\<close> or \<open>!\<close> of the source sees in it. The callback is the type variable
  \<open>'cb\<close>: the components only pass it on and name it in a handler, so every lemma about
  them holds for any implementation of it; theory \<open>Owner\<close> fixes one. A failure is a
  value \<open>Inl e\<close> of the result type: \<open>InvalidElementType\<close> for an element whose type is
  \<open>null\<close>, \<open>NotAFunction\<close> for the call of an absent callback. A component function
  returns the elements its JSX creates, unexpanded; only \<open>render\<close> calls components.

  \<^bold>\<open>Termination and bounds.\<close> Nothing in the development uses fuel. \<open>render\<close> is a
  total function: its termination proof uses the measure \<open>weight\<close>, which gives an
  unexpanded component element eight times the size of the entries it holds, enough to
  pay for the constant number of elements \<open>Menu\<close> and \<open>TableOfContentsItems\<close> create
  around their recursive uses. The trees are finite because \<open>Item\<close> is a datatype; a
  cyclic tree, which the source would follow forever, cannot be written. Strings and
  lists are unbounded, as in the source; there is no machine arithmetic in the file.
  \<open>mount\<close> terminates by the same measure, and \<open>reconcile\<close> is a structural recursion on
  the new tree of instances.
  The matching of a selector (\<open>match_steps\<close>) is a structural recursion on the list
  of elements, and a chain is as long as the nesting of the rendering it is read from.
  The runs of theory \<open>Clicks\<close> are finite lists of events; the progress argument of
  theory \<open>Reveal\<close> is an induction on the number of navigable menus that are closed,
  which a click on a shown closed menu lowers by one and no click lowers by more, so
  that number is also the exact count of clicks needed.

  \<^bold>\<open>Not modelled.\<close> The components imported from other files (\<open>ItemLink\<close>,
  \<open>BulletLink\<close>, \<open>MenuLink\<close>, \<open>Link\<close>, \<open>Icon\<close>) are leaves: their code is not part
  of the file, so an element of one of them is kept with its props and not looked
  into. In the cascade they are elements of unknown tag, and since what they render
  is not known, which list item is the first child of its list is a parameter of the
  theorems of \<open>Cascade\<close>, not a result; in the tree of instances they have no
  children. Of the browser, only the cascade of the list's style sheet is modelled;
  the sheets of the toggle and the arrow are functions of the props (theory
  \<open>Styles\<close>) and are not cascaded, since the elements their nested rules select
  (\<open>span\<close>, \<open>svg\<close>) are rendered by the imported \<open>Link\<close> and \<open>Icon\<close>. Layout in
  pixels, inheritance of properties, and event dispatch are outside the model; a
  click is the application of \<open>onClick\<close> to a handler that a rendering contains. Of
  the rendering library, the calls of function components, the tree of instances and
  its reconciliation are modelled; hooks, effects, batching and scheduling are not,
  since the file uses none of them, and what the library does with two siblings of
  the same key is left open by its documentation, so the theorems of \<open>Reconcile\<close>
  assume distinct sibling titles. The owner of the tree is outside the file: its
  update is modelled from the specification, and how it builds the tree and chooses
  the identifiers is not modelled. The \<open>...rest\<close> props are carried as a list and
  never read. With these exceptions every type, function and style sheet of the file
  has its definition here.
\<close>




end
